theory Spec2Isabelle
  imports Main "HOL-Library.Word" "HOL-Library.AList"
begin

section \<open>Profile page (client/src/pages/Profile.tsx)\<close>

text \<open>
  The page keeps the profile being shown or edited in component state, loads it either from
  the account service (signed-in users) or from the browser's \<^verbatim>\<open>localStorage\<close> (guests),
  and saves it to the same place. The development models the component's state, its event
  handlers and its effects, together with the two platform services the guest path goes
  through: \<^verbatim>\<open>JSON.stringify\<close> / \<^verbatim>\<open>JSON.parse\<close> and \<^verbatim>\<open>localStorage\<close>. What a render
  puts on the screen is left out; which hooks a render calls is not, since the early return
  while the session or the user query is loading comes before the last hook (see the
  subsection on renders).
\<close>

subsection \<open>JavaScript strings and values\<close>

text \<open>
  A JavaScript string is a sequence of UTF-16 code units. \<open>js\<close> embeds an ASCII literal.
\<close>

type_synonym jstring = "16 word list"

definition js :: "string \<Rightarrow> jstring" where
  "js s = map (\<lambda>c. of_nat (of_char c)) s"

text \<open>
  The values that reach the component: \<open>undefined\<close>, and everything \<^verbatim>\<open>JSON.parse\<close> can
  build. A number is kept as the JSON token that denotes it: the component never computes
  with numbers, and the two places where the platform looks at one (its truthiness and its
  text in \<^verbatim>\<open>JSON.stringify\<close>) are parameters, collected in \<open>numbers\<close>, so that no
  floating-point behaviour is assumed. An object is the list of its own properties in the
  order JavaScript enumerates them.
\<close>

datatype jsval =
    Undefined
  | JNull
  | JBool bool
  | JNum jstring
  | JStr jstring
  | JArr "jsval list"
  | JObj "(jstring \<times> jsval) list"

record numbers =
  number_text :: "jstring \<Rightarrow> jstring"
  number_truthy :: "jstring \<Rightarrow> bool"

text \<open>\<^verbatim>\<open>ToBoolean\<close>, as used by \<^verbatim>\<open>if (user)\<close> and \<^verbatim>\<open>x || ''\<close>.\<close>

fun truthy :: "numbers \<Rightarrow> jsval \<Rightarrow> bool" where
  "truthy N Undefined = False"
| "truthy N JNull = False"
| "truthy N (JBool b) = b"
| "truthy N (JNum t) = number_truthy N t"
| "truthy N (JStr s) = (s \<noteq> [])"
| "truthy N (JArr vs) = True"
| "truthy N (JObj kvs) = True"

subsection \<open>\<^verbatim>\<open>JSON.stringify\<close>\<close>

definition hex_digit :: "nat \<Rightarrow> 16 word" where
  "hex_digit d = (if d < 10 then 0x30 + of_nat d else 0x57 + of_nat d)"

text \<open>\<^verbatim>\<open>\uXXXX\<close> with four lower-case hexadecimal digits.\<close>

definition UnicodeEscape :: "16 word \<Rightarrow> jstring" where
  "UnicodeEscape c =
     (let n = unat c in
      [0x5C, 0x75, hex_digit (n div 4096), hex_digit (n div 256 mod 16),
       hex_digit (n div 16 mod 16), hex_digit (n mod 16)])"

definition is_leading_surrogate :: "16 word \<Rightarrow> bool" where
  "is_leading_surrogate c = (0xD800 \<le> c \<and> c \<le> 0xDBFF)"

definition is_trailing_surrogate :: "16 word \<Rightarrow> bool" where
  "is_trailing_surrogate c = (0xDC00 \<le> c \<and> c \<le> 0xDFFF)"

text \<open>
  The body of \<^verbatim>\<open>QuoteJSONString\<close>: the short escapes for backspace, tab, line feed, form
  feed, carriage return, the double quote and the backslash; \<^verbatim>\<open>\uXXXX\<close> for the other
  control characters and for a surrogate that is not part of a pair; every other code unit
  as it is.
\<close>

fun quote_chars :: "jstring \<Rightarrow> jstring" where
  "quote_chars [] = []"
| "quote_chars (c # cs) =
     (if c = 0x08 then [0x5C, 0x62] @ quote_chars cs
      else if c = 0x09 then [0x5C, 0x74] @ quote_chars cs
      else if c = 0x0A then [0x5C, 0x6E] @ quote_chars cs
      else if c = 0x0C then [0x5C, 0x66] @ quote_chars cs
      else if c = 0x0D then [0x5C, 0x72] @ quote_chars cs
      else if c = 0x22 then [0x5C, 0x22] @ quote_chars cs
      else if c = 0x5C then [0x5C, 0x5C] @ quote_chars cs
      else if c < 0x20 then UnicodeEscape c @ quote_chars cs
      else if is_leading_surrogate c then
        (case cs of
           [] \<Rightarrow> UnicodeEscape c
         | d # ds \<Rightarrow>
             if is_trailing_surrogate d then c # d # quote_chars ds
             else UnicodeEscape c @ quote_chars cs)
      else if is_trailing_surrogate c then UnicodeEscape c @ quote_chars cs
      else c # quote_chars cs)"

definition QuoteJSONString :: "jstring \<Rightarrow> jstring" where
  "QuoteJSONString s = [0x22] @ quote_chars s @ [0x22]"

fun join :: "jstring \<Rightarrow> jstring list \<Rightarrow> jstring" where
  "join sep [] = []"
| "join sep [x] = x"
| "join sep (x # y # ys) = x @ sep @ join sep (y # ys)"

text \<open>
  \<^verbatim>\<open>SerializeJSONProperty\<close> without replacer and indentation: \<open>None\<close> stands for the result
  \<open>undefined\<close>. A property whose value is \<open>undefined\<close> is left out of an object and
  becomes \<^verbatim>\<open>null\<close> in an array.
\<close>

fun SerializeJSONProperty :: "numbers \<Rightarrow> jsval \<Rightarrow> jstring option" where
  "SerializeJSONProperty N Undefined = None"
| "SerializeJSONProperty N JNull = Some (js ''null'')"
| "SerializeJSONProperty N (JBool b) = Some (if b then js ''true'' else js ''false'')"
| "SerializeJSONProperty N (JNum t) = Some (number_text N t)"
| "SerializeJSONProperty N (JStr s) = Some (QuoteJSONString s)"
| "SerializeJSONProperty N (JArr vs) =
     Some ([0x5B] @
           join [0x2C] (map (\<lambda>v. case SerializeJSONProperty N v of
                                     None \<Rightarrow> js ''null''
                                   | Some t \<Rightarrow> t) vs) @
           [0x5D])"
| "SerializeJSONProperty N (JObj kvs) =
     Some ([0x7B] @
           join [0x2C] (concat (map (\<lambda>(k, v). case SerializeJSONProperty N v of
                                                 None \<Rightarrow> []
                                               | Some t \<Rightarrow> [QuoteJSONString k @ [0x3A] @ t]) kvs)) @
           [0x7D])"

definition JSON_stringify :: "numbers \<Rightarrow> jsval \<Rightarrow> jstring option" where
  "JSON_stringify N v = SerializeJSONProperty N v"

subsection \<open>\<^verbatim>\<open>JSON.parse\<close>\<close>

text \<open>
  A recursive-descent reader of the JSON grammar over code units. Every reader returns the
  value read and the rest of the input, or \<open>None\<close> where \<^verbatim>\<open>JSON.parse\<close> throws a
  \<^verbatim>\<open>SyntaxError\<close>.
\<close>

text \<open>JSON white space: tab, line feed, carriage return, space.\<close>

definition is_ws :: "16 word \<Rightarrow> bool" where
  "is_ws c = (c = 0x09 \<or> c = 0x0A \<or> c = 0x0D \<or> c = 0x20)"

definition skip_ws :: "jstring \<Rightarrow> jstring" where
  "skip_ws s = dropWhile is_ws s"

definition is_digit :: "16 word \<Rightarrow> bool" where
  "is_digit c = (0x30 \<le> c \<and> c \<le> 0x39)"

definition hex_value :: "16 word \<Rightarrow> nat option" where
  "hex_value c =
     (if 0x30 \<le> c \<and> c \<le> 0x39 then Some (unat c - 0x30)
      else if 0x61 \<le> c \<and> c \<le> 0x66 then Some (unat c - 0x57)
      else if 0x41 \<le> c \<and> c \<le> 0x46 then Some (unat c - 0x37)
      else None)"

definition hex4 :: "16 word \<Rightarrow> 16 word \<Rightarrow> 16 word \<Rightarrow> 16 word \<Rightarrow> 16 word option" where
  "hex4 a b c d =
     (case (hex_value a, hex_value b, hex_value c, hex_value d) of
        (Some x, Some y, Some z, Some w) \<Rightarrow> Some (of_nat (((x * 16 + y) * 16 + z) * 16 + w))
      | _ \<Rightarrow> None)"

text \<open>
  The characters of a string after its opening quote, up to the closing quote. A raw control
  character and an unknown escape are syntax errors.
\<close>

definition prepend :: "16 word \<Rightarrow> (jstring \<times> jstring) option \<Rightarrow> (jstring \<times> jstring) option" where
  "prepend c r = (case r of None \<Rightarrow> None | Some (s, rest) \<Rightarrow> Some (c # s, rest))"

fun parse_chars :: "jstring \<Rightarrow> (jstring \<times> jstring) option" where
  "parse_chars [] = None"
| "parse_chars (c # cs) =
     (if c = 0x22 then Some ([], cs)
      else if c = 0x5C then
        (case cs of
           [] \<Rightarrow> None
         | e # es \<Rightarrow>
             if e = 0x22 then prepend 0x22 (parse_chars es)
             else if e = 0x5C then prepend 0x5C (parse_chars es)
             else if e = 0x2F then prepend 0x2F (parse_chars es)
             else if e = 0x62 then prepend 0x08 (parse_chars es)
             else if e = 0x66 then prepend 0x0C (parse_chars es)
             else if e = 0x6E then prepend 0x0A (parse_chars es)
             else if e = 0x72 then prepend 0x0D (parse_chars es)
             else if e = 0x74 then prepend 0x09 (parse_chars es)
             else if e = 0x75 then
               (case es of
                  h1 # h2 # h3 # h4 # rest \<Rightarrow>
                    (case hex4 h1 h2 h3 h4 of
                       None \<Rightarrow> None
                     | Some u \<Rightarrow> prepend u (parse_chars rest))
                | _ \<Rightarrow> None)
             else None)
      else if c < 0x20 then None
      else prepend c (parse_chars cs))"

text \<open>
  A number token: an optional minus, an integer part without a leading zero, an optional
  fraction and an optional exponent. The token is returned as it stands.
\<close>

definition parse_digits :: "jstring \<Rightarrow> (jstring \<times> jstring) option" where
  "parse_digits s =
     (if takeWhile is_digit s = [] then None
      else Some (takeWhile is_digit s, dropWhile is_digit s))"

definition parse_int :: "jstring \<Rightarrow> (jstring \<times> jstring) option" where
  "parse_int s =
     (case s of
        [] \<Rightarrow> None
      | c # cs \<Rightarrow> if c = 0x30 then Some ([c], cs) else parse_digits s)"

definition parse_frac :: "jstring \<Rightarrow> (jstring \<times> jstring) option" where
  "parse_frac s =
     (case s of
        [] \<Rightarrow> Some ([], s)
      | c # cs \<Rightarrow>
          if c = 0x2E then
            (case parse_digits cs of None \<Rightarrow> None | Some (ds, rest) \<Rightarrow> Some (c # ds, rest))
          else Some ([], s))"

definition parse_exp :: "jstring \<Rightarrow> (jstring \<times> jstring) option" where
  "parse_exp s =
     (case s of
        [] \<Rightarrow> Some ([], s)
      | c # cs \<Rightarrow>
          if c = 0x65 \<or> c = 0x45 then
            (case cs of
               [] \<Rightarrow> None
             | g # gs \<Rightarrow>
                 if g = 0x2B \<or> g = 0x2D then
                   (case parse_digits gs of
                      None \<Rightarrow> None | Some (ds, rest) \<Rightarrow> Some (c # g # ds, rest))
                 else
                   (case parse_digits cs of
                      None \<Rightarrow> None | Some (ds, rest) \<Rightarrow> Some (c # ds, rest)))
          else Some ([], s))"

definition parse_unsigned :: "jstring \<Rightarrow> (jstring \<times> jstring) option" where
  "parse_unsigned s =
     (case parse_int s of
        None \<Rightarrow> None
      | Some (i, r1) \<Rightarrow>
          (case parse_frac r1 of
             None \<Rightarrow> None
           | Some (f, r2) \<Rightarrow>
               (case parse_exp r2 of
                  None \<Rightarrow> None
                | Some (e, r3) \<Rightarrow> Some (i @ f @ e, r3))))"

definition parse_number :: "jstring \<Rightarrow> (jstring \<times> jstring) option" where
  "parse_number s =
     (case s of
        [] \<Rightarrow> None
      | c # cs \<Rightarrow>
          if c = 0x2D then
            (case parse_unsigned cs of None \<Rightarrow> None | Some (t, rest) \<Rightarrow> Some (c # t, rest))
          else parse_unsigned s)"

text \<open>The literals \<^verbatim>\<open>true\<close>, \<^verbatim>\<open>false\<close>, \<^verbatim>\<open>null\<close>, and numbers.\<close>

definition parse_scalar :: "jstring \<Rightarrow> (jsval \<times> jstring) option" where
  "parse_scalar s =
     (if take 4 s = js ''true'' then Some (JBool True, drop 4 s)
      else if take 5 s = js ''false'' then Some (JBool False, drop 5 s)
      else if take 4 s = js ''null'' then Some (JNull, drop 4 s)
      else (case parse_number s of None \<Rightarrow> None | Some (t, rest) \<Rightarrow> Some (JNum t, rest)))"

text \<open>
  Setting a member while an object is built (\<^verbatim>\<open>CreateDataProperty\<close>). A repeated key
  overwrites the earlier value and keeps its place. A new key that is an array index (the
  decimal text, without leading zero, of a number below \<open>2\<^sup>3\<^sup>2 - 1\<close>) goes among the
  index keys, which come first in ascending order; any other new key goes to the end.
\<close>

definition index_value :: "jstring \<Rightarrow> int" where
  "index_value k = foldl (\<lambda>n c. 10 * n + (uint c - 0x30)) 0 k"

fun is_array_index :: "jstring \<Rightarrow> bool" where
  "is_array_index [] = False"
| "is_array_index (c # cs) =
     (list_all is_digit (c # cs) \<and> (c \<noteq> 0x30 \<or> cs = []) \<and>
      index_value (c # cs) < 4294967295)"

definition index_before :: "jstring \<Rightarrow> jstring \<times> jsval \<Rightarrow> bool" where
  "index_before k kv = (is_array_index (fst kv) \<and> index_value (fst kv) < index_value k)"

definition CreateDataProperty ::
  "(jstring \<times> jsval) list \<Rightarrow> jstring \<Rightarrow> jsval \<Rightarrow> (jstring \<times> jsval) list" where
  "CreateDataProperty kvs k v =
     (case map_of kvs k of
        Some old \<Rightarrow> AList.update k v kvs
      | None \<Rightarrow>
          if is_array_index k then
            takeWhile (index_before k) kvs @ (k, v) # dropWhile (index_before k) kvs
          else kvs @ [(k, v)])"

text \<open>
  Arrays and objects. \<open>pv\<close> is the reader for a nested value. The loops over elements and
  members count down a bound; the bound handed in by \<open>JSON_parse\<close> is the length of the
  text, which no loop can use up, since every round consumes at least a comma and a value
  (lemma \<open>parse_value_fuel\<close> below).
\<close>

primrec parse_elements ::
  "(jstring \<Rightarrow> (jsval \<times> jstring) option) \<Rightarrow> nat \<Rightarrow> jsval list \<Rightarrow> jstring \<Rightarrow>
   (jsval \<times> jstring) option" where
  "parse_elements pv 0 acc s = None"
| "parse_elements pv (Suc n) acc s =
     (case skip_ws s of
        [] \<Rightarrow> None
      | c # cs \<Rightarrow>
          if c = 0x5D then Some (JArr acc, cs)
          else if c = 0x2C then
            (case pv cs of
               None \<Rightarrow> None
             | Some (v, rest) \<Rightarrow> parse_elements pv n (acc @ [v]) rest)
          else None)"

definition parse_member ::
  "(jstring \<Rightarrow> (jsval \<times> jstring) option) \<Rightarrow> jstring \<Rightarrow> ((jstring \<times> jsval) \<times> jstring) option" where
  "parse_member pv s =
     (case skip_ws s of
        [] \<Rightarrow> None
      | c # cs \<Rightarrow>
          if c = 0x22 then
            (case parse_chars cs of
               None \<Rightarrow> None
             | Some (k, r1) \<Rightarrow>
                 (case skip_ws r1 of
                    [] \<Rightarrow> None
                  | d # ds \<Rightarrow>
                      if d = 0x3A then
                        (case pv ds of
                           None \<Rightarrow> None
                         | Some (v, r2) \<Rightarrow> Some ((k, v), r2))
                      else None))
          else None)"

primrec parse_members ::
  "(jstring \<Rightarrow> (jsval \<times> jstring) option) \<Rightarrow> nat \<Rightarrow> (jstring \<times> jsval) list \<Rightarrow> jstring \<Rightarrow>
   (jsval \<times> jstring) option" where
  "parse_members pv 0 acc s = None"
| "parse_members pv (Suc n) acc s =
     (case skip_ws s of
        [] \<Rightarrow> None
      | c # cs \<Rightarrow>
          if c = 0x7D then Some (JObj acc, cs)
          else if c = 0x2C then
            (case parse_member pv cs of
               None \<Rightarrow> None
             | Some ((k, v), rest) \<Rightarrow> parse_members pv n (CreateDataProperty acc k v) rest)
          else None)"

definition parse_compound ::
  "(jstring \<Rightarrow> (jsval \<times> jstring) option) \<Rightarrow> nat \<Rightarrow> jstring \<Rightarrow> (jsval \<times> jstring) option" where
  "parse_compound pv n s =
     (case skip_ws s of
        [] \<Rightarrow> None
      | c # cs \<Rightarrow>
          if c = 0x22 then
            (case parse_chars cs of None \<Rightarrow> None | Some (str, rest) \<Rightarrow> Some (JStr str, rest))
          else if c = 0x5B then
            (case skip_ws cs of
               [] \<Rightarrow> None
             | d # ds \<Rightarrow>
                 if d = 0x5D then Some (JArr [], ds)
                 else (case pv cs of
                         None \<Rightarrow> None
                       | Some (v, rest) \<Rightarrow> parse_elements pv n [v] rest))
          else if c = 0x7B then
            (case skip_ws cs of
               [] \<Rightarrow> None
             | d # ds \<Rightarrow>
                 if d = 0x7D then Some (JObj [], ds)
                 else (case parse_member pv cs of
                         None \<Rightarrow> None
                       | Some ((k, v), rest) \<Rightarrow> parse_members pv n [(k, v)] rest))
          else parse_scalar (c # cs))"

primrec parse_value :: "nat \<Rightarrow> jstring \<Rightarrow> (jsval \<times> jstring) option" where
  "parse_value 0 s = None"
| "parse_value (Suc n) s = parse_compound (parse_value n) n s"

text \<open>The whole text is one value, with white space allowed around it.\<close>

definition JSON_parse :: "jstring \<Rightarrow> jsval option" where
  "JSON_parse s =
     (case parse_value (length s) s of
        None \<Rightarrow> None
      | Some (v, rest) \<Rightarrow> if skip_ws rest = [] then Some v else None)"

subsection \<open>Objects as the component uses them\<close>

text \<open>
  The profile held in component state is a JavaScript object. The component only reads
  properties by name and copies them, so it is modelled as a map from property
  names to values; reading a missing property gives \<open>undefined\<close>.
\<close>

type_synonym obj = "jstring \<rightharpoonup> jsval"

definition get :: "obj \<Rightarrow> jstring \<Rightarrow> jsval" where
  "get ob k = (case ob k of None \<Rightarrow> Undefined | Some v \<Rightarrow> v)"

text \<open>Decimal text of an array index, the property name of an element.\<close>

fun decimal :: "nat \<Rightarrow> jstring" where
  "decimal n =
     (if n < 10 then [0x30 + of_nat n]
      else decimal (n div 10) @ [0x30 + of_nat (n mod 10)])"

text \<open>
  The own enumerable properties a spread \<^verbatim>\<open>...v\<close> copies: the members of an object, the
  elements of an array and the code units of a string under their indices, nothing for
  \<open>null\<close>, \<open>undefined\<close>, booleans and numbers.
\<close>

fun own_properties :: "jsval \<Rightarrow> (jstring \<times> jsval) list" where
  "own_properties (JObj kvs) = kvs"
| "own_properties (JArr vs) = zip (map decimal [0..<length vs]) vs"
| "own_properties (JStr s) = zip (map decimal [0..<length s]) (map (\<lambda>c. JStr [c]) s)"
| "own_properties v = []"

text \<open>\<^verbatim>\<open>{ ...target, ...v }\<close>: each own property of \<open>v\<close>, in order, is set on the copy.\<close>

definition spread :: "obj \<Rightarrow> jsval \<Rightarrow> obj" where
  "spread target v = fold (\<lambda>(k, x) ob. ob(k \<mapsto> x)) (own_properties v) target"

text \<open>
  Reading a property of the fetched user record, \<^verbatim>\<open>(user as UserType).name\<close>: the value
  of the member for an object; \<open>undefined\<close> for any other value that passed
  \<^verbatim>\<open>if (user)\<close>, none of which has one of the five names as a property.
\<close>

definition property :: "jsval \<Rightarrow> jstring \<Rightarrow> jsval" where
  "property v k = (case v of JObj kvs \<Rightarrow> get (map_of kvs) k | _ \<Rightarrow> Undefined)"

subsection \<open>\<^verbatim>\<open>localStorage\<close>\<close>

text \<open>
  The stored items, and which writes the browser accepts: \<^verbatim>\<open>setItem\<close> throws (quota
  exceeded, storage disabled) exactly when \<open>accepts\<close> is false for the key and value.
\<close>

record storage =
  items :: "jstring \<rightharpoonup> jstring"
  accepts :: "jstring \<Rightarrow> jstring \<Rightarrow> bool"

definition getItem :: "storage \<Rightarrow> jstring \<Rightarrow> jstring option" where
  "getItem ls k = items ls k"

definition setItem :: "storage \<Rightarrow> jstring \<Rightarrow> jstring \<Rightarrow> storage option" where
  "setItem ls k v = (if accepts ls k v then Some (ls\<lparr>items := (items ls)(k \<mapsto> v)\<rparr>) else None)"

subsection \<open>Session, component state and effects\<close>

text \<open>
  What \<^verbatim>\<open>useAuth()\<close> provides. \<open>userId\<close> is \<^verbatim>\<open>currentUser?.id\<close>: \<open>None\<close> when there is
  no current user.
\<close>

record session =
  isAuthenticated :: bool
  userId :: "jstring option"

text \<open>\<^verbatim>\<open>!!userId\<close>: an identifier that is missing or the empty string is falsy.\<close>

definition truthy_id :: "jstring option \<Rightarrow> bool" where
  "truthy_id uid = (case uid of None \<Rightarrow> False | Some u \<Rightarrow> u \<noteq> [])"

text \<open>The five editable attributes, in the order of the form's inputs, and their keys.\<close>

datatype field = Name | Username | Phone | Email | Address

fun key :: "field \<Rightarrow> jstring" where
  "key Name = js ''name''"
| "key Username = js ''username''"
| "key Phone = js ''phone''"
| "key Email = js ''email''"
| "key Address = js ''address''"

text \<open>
  The four notifications the page raises: remote save succeeded, remote save failed
  (destructive), saved locally, local save failed (destructive).
\<close>

datatype toast = ToastSaved | ToastSaveError | ToastSavedLocally | ToastLocalSaveError

text \<open>
  Why the mutation function rejects: the guard on a missing user identifier, or the
  request itself (network failure, error status, unreadable body).
\<close>

datatype save_error = MustLogin | RequestFailed

text \<open>
  Calls the component makes to its collaborators, in the order it makes them: a toast, a
  \<^verbatim>\<open>console.error\<close>, an \<^verbatim>\<open>apiRequest(method, url, body)\<close>, an invalidation of the user
  query, and the rejection of the mutation function that is handed to \<^verbatim>\<open>onError\<close>.
\<close>

datatype effect =
    Toast toast
  | ConsoleError
  | ApiRequest jstring jstring "(jstring \<times> jsval) list"
  | InvalidateQueries "jstring option"
  | MutationRejected save_error

text \<open>
  The component state (\<open>profile\<close>, \<open>isEditing\<close>), the pending flag of the mutation, the
  browser's local storage, and the effects so far.
\<close>

record state =
  profile :: obj
  isEditing :: bool
  isPending :: bool
  localStorage :: storage
  effects :: "effect list"

definition initial_profile :: obj where
  "initial_profile =
     [js ''username'' \<mapsto> JStr [], js ''name'' \<mapsto> JStr [], js ''phone'' \<mapsto> JStr [],
      js ''email'' \<mapsto> JStr [], js ''address'' \<mapsto> JStr []]"

text \<open>The state of a freshly mounted page on a device whose storage is \<open>ls\<close>.\<close>

definition mount :: "storage \<Rightarrow> state" where
  "mount ls =
     \<lparr>profile = initial_profile, isEditing = False, isPending = False,
      localStorage = ls, effects = []\<rparr>"

subsection \<open>Loading\<close>

text \<open>The user query runs only with \<^verbatim>\<open>enabled: !!userId && isAuthenticated\<close>.\<close>

definition query_enabled :: "session \<Rightarrow> bool" where
  "query_enabled sess = (truthy_id (userId sess) \<and> isAuthenticated sess)"

definition isGuestMode :: "session \<Rightarrow> bool" where
  "isGuestMode sess = (\<not> isAuthenticated sess \<or> \<not> truthy_id (userId sess))"

text \<open>\<^verbatim>\<open>x || ''\<close>\<close>

definition or_empty :: "numbers \<Rightarrow> jsval \<Rightarrow> jsval" where
  "or_empty N v = (if truthy N v then v else JStr [])"

text \<open>
  The effect on \<^verbatim>\<open>[user]\<close>: when the query has data, the profile is replaced by the five
  attributes of the record, each defaulting to the empty string.
\<close>

definition user_effect :: "numbers \<Rightarrow> jsval \<Rightarrow> state \<Rightarrow> state" where
  "user_effect N user st =
     (if truthy N user then
        st\<lparr>profile :=
             [js ''username'' \<mapsto> or_empty N (property user (js ''username'')),
              js ''name'' \<mapsto> or_empty N (property user (js ''name'')),
              js ''phone'' \<mapsto> or_empty N (property user (js ''phone'')),
              js ''email'' \<mapsto> or_empty N (property user (js ''email'')),
              js ''address'' \<mapsto> or_empty N (property user (js ''address''))]\<rparr>
      else st)"

text \<open>
  The effect on \<^verbatim>\<open>[isGuestMode]\<close>: in guest mode a stored, non-empty item is parsed and
  spread over the current profile; a parse error is caught and logged.
\<close>

definition guest_load_effect :: "session \<Rightarrow> state \<Rightarrow> state" where
  "guest_load_effect sess st =
     (if isGuestMode sess then
        (case getItem (localStorage st) (js ''guest_profile'') of
           None \<Rightarrow> st
         | Some guestProfile \<Rightarrow>
             if guestProfile = [] then st
             else
               (case JSON_parse guestProfile of
                  None \<Rightarrow> st\<lparr>effects := effects st @ [ConsoleError]\<rparr>
                | Some parsedProfile \<Rightarrow>
                    st\<lparr>profile := spread (profile st) parsedProfile\<rparr>))
      else st)"

subsection \<open>Editing\<close>

text \<open>The edit button, the five \<^verbatim>\<open>onChange\<close> handlers and the cancel button.\<close>

definition startEdit :: "state \<Rightarrow> state" where
  "startEdit st = st\<lparr>isEditing := True\<rparr>"

definition onChange :: "field \<Rightarrow> jstring \<Rightarrow> state \<Rightarrow> state" where
  "onChange f v st = st\<lparr>profile := (profile st)(key f \<mapsto> JStr v)\<rparr>"

definition cancelEdit :: "state \<Rightarrow> state" where
  "cancelEdit st = st\<lparr>isEditing := False\<rparr>"

subsection \<open>Saving\<close>

text \<open>
  The object literal both save paths build from the profile:
  \<^verbatim>\<open>{ username: profile.username, name: profile.name, ... }\<close>.
\<close>

definition profile_data :: "obj \<Rightarrow> (jstring \<times> jsval) list" where
  "profile_data p =
     [(js ''username'', get p (js ''username'')),
      (js ''name'', get p (js ''name'')),
      (js ''phone'', get p (js ''phone'')),
      (js ''email'', get p (js ''email'')),
      (js ''address'', get p (js ''address''))]"

text \<open>
  \<^verbatim>\<open>handleGuestSave\<close>: the item is written under \<^verbatim>\<open>guest_profile\<close>; on success editing
  ends and a toast is shown, and when \<^verbatim>\<open>setItem\<close> throws, only the error toast is shown.
  (\<^verbatim>\<open>JSON.stringify\<close> of an object literal is always a string; a result \<open>undefined\<close>
  would be stored as the text \<^verbatim>\<open>undefined\<close>.)
\<close>

definition handleGuestSave :: "numbers \<Rightarrow> state \<Rightarrow> state" where
  "handleGuestSave N st =
     (let text = (case JSON_stringify N (JObj (profile_data (profile st))) of
                    None \<Rightarrow> js ''undefined''
                  | Some t \<Rightarrow> t)
      in case setItem (localStorage st) (js ''guest_profile'') text of
           Some ls \<Rightarrow>
             st\<lparr>localStorage := ls, isEditing := False,
                effects := effects st @ [Toast ToastSavedLocally]\<rparr>
         | None \<Rightarrow> st\<lparr>effects := effects st @ [Toast ToastLocalSaveError]\<rparr>)"

text \<open>
  \<^verbatim>\<open>mutationFn\<close> up to its \<^verbatim>\<open>await\<close>: it throws when \<^verbatim>\<open>!userId\<close>, and otherwise issues
  \<^verbatim>\<open>apiRequest('PUT', `/api/users/${userId}`, profileData)\<close>.
\<close>

definition mutationFn ::
  "session \<Rightarrow> (jstring \<times> jsval) list \<Rightarrow> save_error + (jstring \<times> jstring \<times> (jstring \<times> jsval) list)" where
  "mutationFn sess profileData =
     (case userId sess of
        None \<Rightarrow> Inl MustLogin
      | Some u \<Rightarrow>
          if u = [] then Inl MustLogin
          else Inr (js ''PUT'', js ''/api/users/'' @ u, profileData))"

definition onSuccess :: "session \<Rightarrow> state \<Rightarrow> state" where
  "onSuccess sess st =
     st\<lparr>isEditing := False,
        effects := effects st @ [InvalidateQueries (userId sess), Toast ToastSaved]\<rparr>"

definition onError :: "state \<Rightarrow> state" where
  "onError st = st\<lparr>effects := effects st @ [Toast ToastSaveError]\<rparr>"

text \<open>
  \<^verbatim>\<open>updateProfileMutation.mutate(data)\<close>: the mutation function runs; if it throws at
  once the mutation is over and \<^verbatim>\<open>onError\<close> runs, otherwise the request is out and the
  mutation is pending.
\<close>

definition mutate :: "session \<Rightarrow> (jstring \<times> jsval) list \<Rightarrow> state \<Rightarrow> state" where
  "mutate sess profileData st =
     (case mutationFn sess profileData of
        Inl e \<Rightarrow> onError (st\<lparr>isPending := False, effects := effects st @ [MutationRejected e]\<rparr>)
      | Inr (method, url, body) \<Rightarrow>
          st\<lparr>isPending := True, effects := effects st @ [ApiRequest method url body]\<rparr>)"

text \<open>
  The pending request comes back: \<open>True\<close> when \<^verbatim>\<open>apiRequest\<close> and \<^verbatim>\<open>response.json()\<close>
  both succeed, \<open>False\<close> when either throws.
\<close>

definition mutation_settled :: "session \<Rightarrow> bool \<Rightarrow> state \<Rightarrow> state" where
  "mutation_settled sess ok st =
     (if ok then onSuccess sess (st\<lparr>isPending := False\<rparr>)
      else onError (st\<lparr>isPending := False,
                       effects := effects st @ [MutationRejected RequestFailed]\<rparr>))"

definition handleSave :: "numbers \<Rightarrow> session \<Rightarrow> state \<Rightarrow> state" where
  "handleSave N sess st =
     (if isGuestMode sess then handleGuestSave N st
      else mutate sess (profile_data (profile st)) st)"

text \<open>
  The save button is part of the form, which is rendered while editing, and is disabled
  while \<^verbatim>\<open>!isGuestMode && updateProfileMutation.isPending\<close>.
\<close>

definition save_available :: "session \<Rightarrow> state \<Rightarrow> bool" where
  "save_available sess st = (isEditing st \<and> \<not> (\<not> isGuestMode sess \<and> isPending st))"

text \<open>Effects that reach the network, and the effects an operation added.\<close>

fun is_request :: "effect \<Rightarrow> bool" where
  "is_request (ApiRequest m u b) = True"
| "is_request e = False"

definition added :: "state \<Rightarrow> state \<Rightarrow> effect list" where
  "added st st' = drop (length (effects st)) (effects st')"

subsection \<open>Concrete sessions and devices\<close>

text \<open>
  A device with nothing stored that accepts every write, and one that holds a given item
  under \<^verbatim>\<open>guest_profile\<close>; a visitor who is not signed in; a
  signed-in user with identifier \<^verbatim>\<open>42\<close>; and a stand-in for the number functions of the
  platform, for runs in which no number occurs.
\<close>

definition empty_storage :: storage where
  "empty_storage = \<lparr>items = Map.empty, accepts = (\<lambda>k v. True)\<rparr>"

definition storage_holding :: "jstring \<Rightarrow> storage" where
  "storage_holding blob =
     \<lparr>items = [js ''guest_profile'' \<mapsto> blob], accepts = (\<lambda>k v. True)\<rparr>"

definition guest :: session where
  "guest = \<lparr>isAuthenticated = False, userId = None\<rparr>"

definition member :: session where
  "member = \<lparr>isAuthenticated = True, userId = Some (js ''42'')\<rparr>"

definition plain_numbers :: numbers where
  "plain_numbers = \<lparr>number_text = (\<lambda>t. t), number_truthy = (\<lambda>t. True)\<rparr>"

subsection \<open>Renders and the order of hooks\<close>

text \<open>
  A render of the component calls its hooks from top to bottom: \<^verbatim>\<open>useLocation\<close>,
  \<^verbatim>\<open>useToast\<close>, \<^verbatim>\<open>useQueryClient\<close>, \<^verbatim>\<open>useAuth\<close>, the two \<^verbatim>\<open>useState\<close>, \<^verbatim>\<open>useQuery\<close>,
  \<^verbatim>\<open>useMutation\<close> and the effect on \<^verbatim>\<open>[user]\<close>. Then comes
  \<^verbatim>\<open>if (authLoading || isLoading) return\<close> with the loading screen, and only a render
  that gets past it calls the tenth hook, the effect on \<^verbatim>\<open>[isGuestMode]\<close>.
\<close>

datatype hook =
    UseLocation
  | UseToast
  | UseQueryClient
  | UseAuth
  | UseStateProfile
  | UseStateIsEditing
  | UseQuery
  | UseMutation
  | UseEffectUser
  | UseEffectGuest

definition hooks_called :: "bool \<Rightarrow> bool \<Rightarrow> hook list" where
  "hooks_called authLoading isLoading =
     [UseLocation, UseToast, UseQueryClient, UseAuth, UseStateProfile, UseStateIsEditing,
      UseQuery, UseMutation, UseEffectUser] @
     (if authLoading \<or> isLoading then [] else [UseEffectGuest])"

text \<open>
  A mounted component: its state, the hooks its last committed render called, and the
  dependencies the two effects were last run with (\<open>None\<close> for the guest effect while it
  is not registered).
\<close>

record component =
  page :: state
  hooks :: "hook list"
  user_dep :: jsval
  guest_dep :: "bool option"

text \<open>
  The first render, given what \<^verbatim>\<open>useAuth\<close> and \<^verbatim>\<open>useQuery\<close> return to it: the state is
  initialised, the render is committed, and the effects it registered run in the order of
  their hooks.
\<close>

definition first_render ::
  "numbers \<Rightarrow> session \<Rightarrow> bool \<Rightarrow> bool \<Rightarrow> jsval \<Rightarrow> storage \<Rightarrow> component" where
  "first_render N sess authLoading isLoading user ls =
     (let registered = UseEffectGuest \<in> set (hooks_called authLoading isLoading);
          st = user_effect N user (mount ls)
      in \<lparr>page = (if registered then guest_load_effect sess st else st),
          hooks = hooks_called authLoading isLoading,
          user_dep = user,
          guest_dep = (if registered then Some (isGuestMode sess) else None)\<rparr>)"

text \<open>
  A later render. React keeps the hooks of a mounted component by position and throws when
  a render calls more hooks than the previous one, or fewer: the result is \<open>None\<close>, nothing
  of the render is committed and none of its effects run. Otherwise the render is
  committed and each effect runs if its dependency changed. (The query hands out the same
  object for equal data, so a changed \<open>user\<close> is a different value.)
\<close>

definition rerender ::
  "numbers \<Rightarrow> session \<Rightarrow> bool \<Rightarrow> bool \<Rightarrow> jsval \<Rightarrow> component \<Rightarrow> component option" where
  "rerender N sess authLoading isLoading user inst =
     (if hooks_called authLoading isLoading \<noteq> hooks inst then None
      else
        (let st = (if user = user_dep inst then page inst else user_effect N user (page inst))
         in Some
              (inst\<lparr>page :=
                      (case guest_dep inst of
                         None \<Rightarrow> st
                       | Some was_guest \<Rightarrow>
                           if was_guest = isGuestMode sess then st
                           else guest_load_effect sess st),
                    user_dep := user,
                    guest_dep := map_option (\<lambda>was_guest. isGuestMode sess) (guest_dep inst)\<rparr>)))"

text \<open>
  The record of the authenticated scenario: name \<^verbatim>\<open>Omar\<close>, phone \<^verbatim>\<open>0500000000\<close>, no
  other key.
\<close>

definition omar_record :: jsval where
  "omar_record =
     JObj [(js ''name'', JStr (js ''Omar'')), (js ''phone'', JStr (js ''0500000000''))]"

subsection \<open>A profile of five strings and its JSON text\<close>

text \<open>
  The object literal of the save handlers when all five attributes are strings, and the
  text \<^verbatim>\<open>JSON.stringify\<close> gives for it (lemma \<open>stringify_profile_record\<close>).
\<close>

definition profile_text :: "jstring \<Rightarrow> jstring \<Rightarrow> jstring \<Rightarrow> jstring \<Rightarrow> jstring \<Rightarrow> jstring" where
  "profile_text u n p e a =
     0x7B # QuoteJSONString (js ''username'') @ 0x3A # QuoteJSONString u @
     0x2C # QuoteJSONString (js ''name'') @ 0x3A # QuoteJSONString n @
     0x2C # QuoteJSONString (js ''phone'') @ 0x3A # QuoteJSONString p @
     0x2C # QuoteJSONString (js ''email'') @ 0x3A # QuoteJSONString e @
     0x2C # QuoteJSONString (js ''address'') @ 0x3A # QuoteJSONString a @ [0x7D]"

definition profile_record :: "jstring \<Rightarrow> jstring \<Rightarrow> jstring \<Rightarrow> jstring \<Rightarrow> jstring \<Rightarrow> (jstring \<times> jsval) list" where
  "profile_record u n p e a =
     [(js ''username'', JStr u), (js ''name'', JStr n), (js ''phone'', JStr p),
      (js ''email'', JStr e), (js ''address'', JStr a)]"

text \<open>
  The run of the guest scenario: the page is mounted and loads, the visitor starts editing,
  types the name \<^verbatim>\<open>Sara\<close> and saves.
\<close>

definition sara_saved :: "numbers \<Rightarrow> session \<Rightarrow> storage \<Rightarrow> state" where
  "sara_saved N sess ls =
     handleSave N sess (onChange Name (js ''Sara'') (startEdit (guest_load_effect sess (mount ls))))"

section \<open>Properties of the JSON functions\<close>

subsection \<open>Strings survive quoting and reading\<close>

lemma hex_value_digit_all: "\<forall>d \<in> set [0..<16]. hex_value (hex_digit d) = Some d"
  by code_simp

lemma hex_value_digit: "d < 16 \<Longrightarrow> hex_value (hex_digit d) = Some d"
  using hex_value_digit_all by simp

lemma hex_recompose:
  fixes n :: nat
  shows "((n div 4096 * 16 + n div 256 mod 16) * 16 + n div 16 mod 16) * 16 + n mod 16 = n"
proof -
  have a: "n div 256 = n div 16 div 16" by (simp add: div_mult2_eq)
  have b: "n div 4096 = n div 16 div 16 div 16" by (simp add: div_mult2_eq)
  show ?thesis unfolding a b
    by (metis div_mult_mod_eq)
qed

lemma hex4_UnicodeEscape:
  "UnicodeEscape c = [0x5C, 0x75, h1, h2, h3, h4] \<Longrightarrow> hex4 h1 h2 h3 h4 = Some c"
proof -
  assume e: "UnicodeEscape c = [0x5C, 0x75, h1, h2, h3, h4]"
  define n where "n = unat c"
  have "n < 65536" using unsigned_less[of c, where 'a=nat] by (simp add: n_def)
  then have d1: "n div 4096 < 16" by simp
  have v: "hex_value (hex_digit (n div 4096)) = Some (n div 4096)"
    "hex_value (hex_digit (n div 256 mod 16)) = Some (n div 256 mod 16)"
    "hex_value (hex_digit (n div 16 mod 16)) = Some (n div 16 mod 16)"
    "hex_value (hex_digit (n mod 16)) = Some (n mod 16)"
    using d1 by (simp_all add: hex_value_digit)
  have h: "h1 = hex_digit (n div 4096)" "h2 = hex_digit (n div 256 mod 16)"
    "h3 = hex_digit (n div 16 mod 16)" "h4 = hex_digit (n mod 16)"
    using e by (simp_all add: UnicodeEscape_def n_def Let_def)
  have "hex4 h1 h2 h3 h4 = Some (of_nat n)"
    unfolding h hex4_def v by (simp only: hex_recompose prod.case option.case)
  then show ?thesis by (simp add: n_def)
qed

lemma parse_chars_UnicodeEscape:
  "parse_chars (UnicodeEscape c @ s) = prepend c (parse_chars s)"
proof -
  obtain h1 h2 h3 h4 where e: "UnicodeEscape c = [0x5C, 0x75, h1, h2, h3, h4]"
    by (simp add: UnicodeEscape_def Let_def)
  show ?thesis
    by (simp add: e hex4_UnicodeEscape[OF e])
qed



lemma quote_chars_cases:
  obtains (short) "c = 0x08 \<or> c = 0x09 \<or> c = 0x0A \<or> c = 0x0C \<or> c = 0x0D \<or> c = 0x22 \<or> c = 0x5C"
    | (control) "c \<noteq> 0x08" "c \<noteq> 0x09" "c \<noteq> 0x0A" "c \<noteq> 0x0C" "c \<noteq> 0x0D" "c \<noteq> 0x22" "c \<noteq> 0x5C"
        "c < 0x20"
    | (lead) "c \<noteq> 0x08" "c \<noteq> 0x09" "c \<noteq> 0x0A" "c \<noteq> 0x0C" "c \<noteq> 0x0D" "c \<noteq> 0x22" "c \<noteq> 0x5C"
        "\<not> c < 0x20" "is_leading_surrogate c"
    | (trail) "c \<noteq> 0x08" "c \<noteq> 0x09" "c \<noteq> 0x0A" "c \<noteq> 0x0C" "c \<noteq> 0x0D" "c \<noteq> 0x22" "c \<noteq> 0x5C"
        "\<not> c < 0x20" "\<not> is_leading_surrogate c" "is_trailing_surrogate c"
    | (plain) "c \<noteq> 0x08" "c \<noteq> 0x09" "c \<noteq> 0x0A" "c \<noteq> 0x0C" "c \<noteq> 0x0D" "c \<noteq> 0x22" "c \<noteq> 0x5C"
        "\<not> c < 0x20" "\<not> is_leading_surrogate c" "\<not> is_trailing_surrogate c"
  by blast

lemma quote_chars_short:
  assumes "c = 0x08 \<or> c = 0x09 \<or> c = 0x0A \<or> c = 0x0C \<or> c = 0x0D \<or> c = 0x22 \<or> c = 0x5C"
    and "parse_chars (quote_chars cs @ 0x22 # rest) = Some (cs, rest)"
  shows "parse_chars (quote_chars (c # cs) @ 0x22 # rest) = Some (c # cs, rest)"
  using assms by (elim disjE) (simp_all add: prepend_def)


lemma quote_chars_control:
  assumes "c \<noteq> 0x08" "c \<noteq> 0x09" "c \<noteq> 0x0A" "c \<noteq> 0x0C" "c \<noteq> 0x0D" "c \<noteq> 0x22" "c \<noteq> 0x5C"
    and "c < 0x20"
    and "parse_chars (quote_chars cs @ 0x22 # rest) = Some (cs, rest)"
  shows "parse_chars (quote_chars (c # cs) @ 0x22 # rest) = Some (c # cs, rest)"
  using assms by (simp add: parse_chars_UnicodeEscape prepend_def)

lemma quote_chars_trail:
  assumes "c \<noteq> 0x08" "c \<noteq> 0x09" "c \<noteq> 0x0A" "c \<noteq> 0x0C" "c \<noteq> 0x0D" "c \<noteq> 0x22" "c \<noteq> 0x5C"
    and "\<not> c < 0x20" "\<not> is_leading_surrogate c" "is_trailing_surrogate c"
    and "parse_chars (quote_chars cs @ 0x22 # rest) = Some (cs, rest)"
  shows "parse_chars (quote_chars (c # cs) @ 0x22 # rest) = Some (c # cs, rest)"
  using assms by (simp add: parse_chars_UnicodeEscape prepend_def)

lemma quote_chars_plain:
  assumes "c \<noteq> 0x08" "c \<noteq> 0x09" "c \<noteq> 0x0A" "c \<noteq> 0x0C" "c \<noteq> 0x0D" "c \<noteq> 0x22" "c \<noteq> 0x5C"
    and "\<not> c < 0x20" "\<not> is_leading_surrogate c" "\<not> is_trailing_surrogate c"
    and "parse_chars (quote_chars cs @ 0x22 # rest) = Some (cs, rest)"
  shows "parse_chars (quote_chars (c # cs) @ 0x22 # rest) = Some (c # cs, rest)"
  using assms by (simp add: prepend_def)


lemma trailing_surrogate_plain:
  assumes "is_trailing_surrogate d"
  shows "d \<noteq> 0x22" "d \<noteq> 0x5C" "\<not> d < 0x20"
proof -
  have lo: "0xDC00 \<le> d" using assms by (simp add: is_trailing_surrogate_def)
  show "d \<noteq> 0x22" using lo by auto
  show "d \<noteq> 0x5C" using lo by auto
  show "\<not> d < 0x20"
  proof
    assume "d < 0x20"
    with lo have "(0xDC00 :: 16 word) < 0x20" by (rule order_le_less_trans)
    then show False by simp
  qed
qed

lemma quote_chars_lead_last:
  assumes "c \<noteq> 0x08" "c \<noteq> 0x09" "c \<noteq> 0x0A" "c \<noteq> 0x0C" "c \<noteq> 0x0D" "c \<noteq> 0x22" "c \<noteq> 0x5C"
    and "\<not> c < 0x20" "is_leading_surrogate c"
  shows "parse_chars (quote_chars [c] @ 0x22 # rest) = Some ([c], rest)"
  using assms by (simp add: parse_chars_UnicodeEscape prepend_def)

lemma quote_chars_lead_pair:
  assumes "c \<noteq> 0x08" "c \<noteq> 0x09" "c \<noteq> 0x0A" "c \<noteq> 0x0C" "c \<noteq> 0x0D" "c \<noteq> 0x22" "c \<noteq> 0x5C"
    and "\<not> c < 0x20" "is_leading_surrogate c" "is_trailing_surrogate d"
    and "parse_chars (quote_chars ds @ 0x22 # rest) = Some (ds, rest)"
  shows "parse_chars (quote_chars (c # d # ds) @ 0x22 # rest) = Some (c # d # ds, rest)"
  using assms trailing_surrogate_plain[OF assms(10)] by (simp add: prepend_def)

lemma quote_chars_lead_lone:
  assumes "c \<noteq> 0x08" "c \<noteq> 0x09" "c \<noteq> 0x0A" "c \<noteq> 0x0C" "c \<noteq> 0x0D" "c \<noteq> 0x22" "c \<noteq> 0x5C"
    and "\<not> c < 0x20" "is_leading_surrogate c" "\<not> is_trailing_surrogate d"
    and "parse_chars (quote_chars (d # ds) @ 0x22 # rest) = Some (d # ds, rest)"
  shows "parse_chars (quote_chars (c # d # ds) @ 0x22 # rest) = Some (c # d # ds, rest)"
proof -
  have "quote_chars (c # d # ds) = UnicodeEscape c @ quote_chars (d # ds)"
    using assms(1-10) by (simp only: quote_chars.simps if_False if_True list.case)
  then show ?thesis
    using assms(11) by (simp only: append_assoc parse_chars_UnicodeEscape prepend_def option.case prod.case)
qed

lemma parse_chars_quote_chars:
  "parse_chars (quote_chars s @ 0x22 # rest) = Some (s, rest)"
proof (induction "length s" arbitrary: s rule: less_induct)
  case less
  show ?case
  proof (cases s)
    case Nil
    then show ?thesis by simp
  next
    case (Cons c cs)
    have ih: "parse_chars (quote_chars cs @ 0x22 # rest) = Some (cs, rest)"
      using less[of cs] Cons by simp
    show ?thesis
    proof (cases c rule: quote_chars_cases)
      case short
      then show ?thesis unfolding Cons using ih by (rule quote_chars_short)
    next
      case control
      then show ?thesis unfolding Cons using ih by (rule quote_chars_control)
    next
      case trail
      then show ?thesis unfolding Cons using ih by (rule quote_chars_trail)
    next
      case plain
      then show ?thesis unfolding Cons using ih by (rule quote_chars_plain)
    next
      case lead
      show ?thesis
      proof (cases cs)
        case Nil
        show ?thesis unfolding Cons Nil using lead by (rule quote_chars_lead_last)
      next
        case (Cons d ds)
        have ih2: "parse_chars (quote_chars ds @ 0x22 # rest) = Some (ds, rest)"
          using less[of ds] Cons \<open>s = c # cs\<close> by simp
        show ?thesis
        proof (cases "is_trailing_surrogate d")
          case True
          show ?thesis unfolding \<open>s = c # cs\<close> Cons
            using lead True ih2 by (rule quote_chars_lead_pair)
        next
          case False
          show ?thesis unfolding \<open>s = c # cs\<close> Cons
            using lead False ih[unfolded Cons] by (rule quote_chars_lead_lone)
        qed
      qed
    qed
  qed
qed

subsection \<open>Reading an object of strings\<close>

lemma parse_compound_string:
  "parse_compound pv n (QuoteJSONString s @ rest) = Some (JStr s, rest)"
  by (simp add: parse_compound_def QuoteJSONString_def skip_ws_def is_ws_def parse_chars_quote_chars)

lemma parse_value_string:
  "parse_value (Suc n) (QuoteJSONString s @ rest) = Some (JStr s, rest)"
  by (simp add: parse_compound_string)

lemma parse_member_string:
  "parse_member (parse_value (Suc n)) (QuoteJSONString k @ 0x3A # QuoteJSONString v @ rest)
     = Some ((k, JStr v), rest)"
proof -
  have a: "parse_chars (quote_chars k @ 0x22 # 0x3A # QuoteJSONString v @ rest)
             = Some (k, 0x3A # QuoteJSONString v @ rest)"
    by (rule parse_chars_quote_chars)
  show ?thesis
    unfolding parse_member_def
    by (simp add: QuoteJSONString_def[of k] skip_ws_def is_ws_def a parse_value_string del: parse_value.simps)
qed

lemma parse_members_next:
  "parse_members (parse_value (Suc m)) (Suc n) acc
     (0x2C # QuoteJSONString k @ 0x3A # QuoteJSONString v @ rest)
   = parse_members (parse_value (Suc m)) n (CreateDataProperty acc k (JStr v)) rest"
  by (simp add: skip_ws_def is_ws_def parse_member_string del: parse_value.simps)

lemma parse_members_close:
  "parse_members pv (Suc n) acc (0x7D # rest) = Some (JObj acc, rest)"
  by (simp add: skip_ws_def is_ws_def)

lemma parse_compound_open:
  "parse_compound (parse_value (Suc m)) n
     (0x7B # QuoteJSONString k @ 0x3A # QuoteJSONString v @ rest)
   = parse_members (parse_value (Suc m)) n [(k, JStr v)] rest"
proof -
  have q: "QuoteJSONString k @ 0x3A # QuoteJSONString v @ rest
             = 0x22 # (quote_chars k @ 0x22 # 0x3A # QuoteJSONString v @ rest)"
    by (simp add: QuoteJSONString_def)
  have s: "skip_ws (QuoteJSONString k @ 0x3A # QuoteJSONString v @ rest)
             = 0x22 # (quote_chars k @ 0x22 # 0x3A # QuoteJSONString v @ rest)"
    unfolding q by (simp add: skip_ws_def is_ws_def)
  show ?thesis
    unfolding parse_compound_def
    by (simp add: skip_ws_def[of "0x7B # _"] is_ws_def s parse_member_string del: parse_value.simps)
qed


text \<open>The text of an object with five string-valued members.\<close>

lemma stringify_five:
  "JSON_stringify N (JObj [(k1, JStr v1), (k2, JStr v2), (k3, JStr v3), (k4, JStr v4), (k5, JStr v5)])
   = Some (0x7B # QuoteJSONString k1 @ 0x3A # QuoteJSONString v1 @
           0x2C # QuoteJSONString k2 @ 0x3A # QuoteJSONString v2 @
           0x2C # QuoteJSONString k3 @ 0x3A # QuoteJSONString v3 @
           0x2C # QuoteJSONString k4 @ 0x3A # QuoteJSONString v4 @
           0x2C # QuoteJSONString k5 @ 0x3A # QuoteJSONString v5 @ [0x7D])"
  by (simp add: JSON_stringify_def)

lemma six_le: "6 \<le> (n::nat) \<Longrightarrow> \<exists>m. n = Suc (Suc (Suc (Suc (Suc (Suc m)))))"
  by (rule exI[of _ "n - 6"]) simp

lemma parse_five:
  assumes "distinct [k1, k2, k3, k4, k5]"
    and "\<not> is_array_index k2" "\<not> is_array_index k3" "\<not> is_array_index k4" "\<not> is_array_index k5"
  shows "JSON_parse (0x7B # QuoteJSONString k1 @ 0x3A # QuoteJSONString v1 @
           0x2C # QuoteJSONString k2 @ 0x3A # QuoteJSONString v2 @
           0x2C # QuoteJSONString k3 @ 0x3A # QuoteJSONString v3 @
           0x2C # QuoteJSONString k4 @ 0x3A # QuoteJSONString v4 @
           0x2C # QuoteJSONString k5 @ 0x3A # QuoteJSONString v5 @ [0x7D])
         = Some (JObj [(k1, JStr v1), (k2, JStr v2), (k3, JStr v3), (k4, JStr v4), (k5, JStr v5)])"
    (is "JSON_parse ?text = Some (JObj ?ob)")
proof -
  have "6 \<le> length ?text" by (simp add: QuoteJSONString_def)
  then obtain m where len: "length ?text = Suc (Suc (Suc (Suc (Suc (Suc m)))))"
    using six_le by blast
  have upd: "CreateDataProperty (CreateDataProperty (CreateDataProperty
               (CreateDataProperty [(k1, JStr v1)] k2 (JStr v2)) k3 (JStr v3)) k4 (JStr v4)) k5 (JStr v5)
             = ?ob"
  proof -
    have ne: "k2 \<noteq> k1" "k3 \<noteq> k1" "k3 \<noteq> k2" "k4 \<noteq> k1" "k4 \<noteq> k2" "k4 \<noteq> k3"
      "k5 \<noteq> k1" "k5 \<noteq> k2" "k5 \<noteq> k3" "k5 \<noteq> k4"
      using assms(1) by auto
    show ?thesis
      by (simp add: CreateDataProperty_def ne assms(2-5))
  qed
  have "parse_value (Suc (Suc (Suc (Suc (Suc (Suc m)))))) ?text = Some (JObj ?ob, [])"
    unfolding parse_value.simps(2)[of "Suc (Suc (Suc (Suc (Suc m))))"]
    by (simp only: parse_compound_open parse_members_next parse_members_close append_Cons append_Nil upd)
  then show ?thesis
    unfolding JSON_parse_def len by (simp add: skip_ws_def del: parse_value.simps)
qed

subsection \<open>Objects read by \<open>JSON_parse\<close> have distinct keys\<close>

lemma parse_elements_array:
  "parse_elements pv n acc s = Some (v, rest) \<Longrightarrow> \<exists>vs. v = JArr vs"
  by (induction n arbitrary: acc s) (auto split: list.splits if_splits option.splits)

lemma takeWhile_dropWhile_keys:
  "fst ` set (takeWhile P kvs) \<union> fst ` set (dropWhile P kvs) = fst ` set kvs"
  by (metis image_Un set_append takeWhile_dropWhile_id)

lemma distinct_CreateDataProperty:
  assumes "distinct (map fst kvs)"
  shows "distinct (map fst (CreateDataProperty kvs k v))"
proof (cases "map_of kvs k")
  case (Some old)
  then show ?thesis using assms by (simp add: CreateDataProperty_def distinct_update)
next
  case None
  then have k: "k \<notin> fst ` set kvs" by (simp add: map_of_eq_None_iff)
  have "distinct (map fst (takeWhile P kvs @ (k, v) # dropWhile P kvs))" for P
  proof -
    let ?xs = "map fst (takeWhile P kvs)" and ?ys = "map fst (dropWhile P kvs)"
    have "distinct (?xs @ ?ys)"
      using assms by (simp only: map_append[symmetric] takeWhile_dropWhile_id)
    then have parts: "distinct ?xs" "distinct ?ys" "set ?xs \<inter> set ?ys = {}"
      by (simp_all only: distinct_append)
    have "k \<notin> set ?xs \<union> set ?ys"
      using k takeWhile_dropWhile_keys[of P kvs] by auto
    then have "distinct (?xs @ k # ?ys)"
      using parts by (auto simp: distinct_append)
    then show ?thesis by simp
  qed
  then show ?thesis using None assms k by (simp add: CreateDataProperty_def)
qed

lemma parse_members_distinct:
  "parse_members pv n acc s = Some (v, rest) \<Longrightarrow> distinct (map fst acc) \<Longrightarrow>
     \<exists>kvs. v = JObj kvs \<and> distinct (map fst kvs)"
proof (induction n arbitrary: acc s)
  case 0
  then show ?case by simp
next
  case (Suc n)
  then show ?case
    by (auto split: list.splits if_splits option.splits simp: distinct_CreateDataProperty)
qed

lemma parse_scalar_no_object: "parse_scalar s \<noteq> Some (JObj kvs, rest)"
  by (auto simp: parse_scalar_def split: option.splits)

lemma parse_compound_distinct:
  assumes "parse_compound pv n s = Some (JObj kvs, rest)"
  shows "distinct (map fst kvs)"
proof -
  obtain c cs where s: "skip_ws s = c # cs"
    using assms by (cases "skip_ws s") (simp_all add: parse_compound_def)
  consider (str) "c = 0x22" | (arr) "c \<noteq> 0x22" "c = 0x5B"
    | (ob) "c \<noteq> 0x22" "c \<noteq> 0x5B" "c = 0x7B"
    | (sc) "c \<noteq> 0x22" "c \<noteq> 0x5B" "c \<noteq> 0x7B"
    by blast
  then show ?thesis
  proof cases
    case str
    then show ?thesis using assms s
      by (auto simp: parse_compound_def split: option.splits)
  next
    case arr
    then show ?thesis using assms s
      by (auto simp: parse_compound_def split: option.splits list.splits if_splits
               dest: parse_elements_array)
  next
    case ob
    then show ?thesis using assms s
      by (auto simp: parse_compound_def split: option.splits list.splits if_splits
               dest: parse_members_distinct)
  next
    case sc
    then show ?thesis using assms s
      by (simp add: parse_compound_def parse_scalar_no_object)
  qed
qed

lemma JSON_parse_distinct:
  assumes "JSON_parse s = Some (JObj kvs)"
  shows "distinct (map fst kvs)"
proof -
  from assms obtain rest where p: "parse_value (length s) s = Some (JObj kvs, rest)"
    by (auto simp: JSON_parse_def split: option.splits if_splits simp del: parse_value.simps)
  then show ?thesis
    by (cases "length s") (auto dest: parse_compound_distinct)
qed

subsection \<open>The loop bound is never the reason for a failure\<close>

text \<open>
  Every reader consumes input, so a bound of at least the length of the text is as good as
  any larger one: \<open>JSON_parse\<close> fails only on a text outside the grammar.
\<close>

lemma skip_ws_length: "length (skip_ws s) \<le> length s"
  by (simp add: skip_ws_def length_dropWhile_le)

lemma skip_ws_Cons_length: "skip_ws s = c # cs \<Longrightarrow> length cs < length s"
  using skip_ws_length[of s] by simp

lemma prepend_Some:
  "prepend c r = Some (t, rest) \<Longrightarrow> \<exists>t'. r = Some (t', rest)"
  by (auto simp: prepend_def split: option.splits)

lemma parse_chars_shrinks: "parse_chars s = Some (t, rest) \<Longrightarrow> length rest < length s"
proof (induction "length s" arbitrary: s t rule: less_induct)
  case less
  show ?case
  proof (cases s)
    case Nil
    then show ?thesis using less.prems by simp
  next
    case (Cons c cs)
    consider (q) "c = 0x22" | (b) "c \<noteq> 0x22" "c = 0x5C"
      | (lo) "c \<noteq> 0x22" "c \<noteq> 0x5C" "c < 0x20"
      | (pl) "c \<noteq> 0x22" "c \<noteq> 0x5C" "\<not> c < 0x20"
      by blast
    then show ?thesis
    proof cases
      case q
      then show ?thesis using less.prems Cons by simp
    next
      case lo
      then show ?thesis using less.prems Cons by simp
    next
      case pl
      then obtain t' where "parse_chars cs = Some (t', rest)"
        using less.prems Cons by (auto dest: prepend_Some)
      then have "length rest < length cs" using less.hyps[of cs] Cons by simp
      then show ?thesis using Cons by simp
    next
      case b
      then obtain e es where es: "cs = e # es"
        using less.prems Cons by (cases cs) simp_all
      show ?thesis
      proof (cases "e = 0x75")
        case False
        then obtain t' where "parse_chars es = Some (t', rest)"
          using less.prems Cons b es by (auto dest: prepend_Some split: if_splits)
        then have "length rest < length es" using less.hyps[of es] Cons es by simp
        then show ?thesis using Cons es by simp
      next
        case True
        then obtain h1 h2 h3 h4 r t' where r: "es = h1 # h2 # h3 # h4 # r"
          "parse_chars r = Some (t', rest)"
          using less.prems Cons b es
          by (auto dest: prepend_Some split: list.splits option.splits)
        then have "length rest < length r" using less.hyps[of r] Cons es by simp
        then show ?thesis using Cons es r by simp
      qed
    qed
  qed
qed

lemma parse_digits_shrinks: "parse_digits s = Some (t, rest) \<Longrightarrow> length rest < length s"
proof -
  assume a: "parse_digits s = Some (t, rest)"
  then have t: "takeWhile is_digit s \<noteq> []" and r: "rest = dropWhile is_digit s"
    by (auto simp: parse_digits_def split: if_splits)
  have "length (takeWhile is_digit s) + length (dropWhile is_digit s) = length s"
    by (metis length_append takeWhile_dropWhile_id)
  then show ?thesis using t r by (cases "takeWhile is_digit s") auto
qed

lemma parse_int_shrinks: "parse_int s = Some (t, rest) \<Longrightarrow> length rest < length s"
  by (auto simp: parse_int_def split: list.splits if_splits dest: parse_digits_shrinks)

lemma parse_frac_shrinks: "parse_frac s = Some (t, rest) \<Longrightarrow> length rest \<le> length s"
  by (auto simp: parse_frac_def split: list.splits if_splits option.splits
           dest!: parse_digits_shrinks)

lemma parse_exp_shrinks: "parse_exp s = Some (t, rest) \<Longrightarrow> length rest \<le> length s"
  by (auto simp: parse_exp_def split: list.splits if_splits option.splits
           dest!: parse_digits_shrinks)

lemma parse_unsigned_shrinks: "parse_unsigned s = Some (t, rest) \<Longrightarrow> length rest < length s"
  by (auto simp: parse_unsigned_def split: option.splits
           dest!: parse_int_shrinks parse_frac_shrinks parse_exp_shrinks)

lemma parse_number_shrinks: "parse_number s = Some (t, rest) \<Longrightarrow> length rest < length s"
  by (auto simp: parse_number_def split: list.splits if_splits option.splits
           dest!: parse_unsigned_shrinks)

lemma take_js_length: "take n s = js lit \<Longrightarrow> length lit \<le> length s"
proof -
  assume "take n s = js lit"
  then have "length (take n s) = length lit" by (simp add: js_def)
  then show ?thesis by simp
qed

lemma parse_scalar_shrinks: "parse_scalar s = Some (v, rest) \<Longrightarrow> length rest < length s"
  unfolding parse_scalar_def
  by (auto split: if_splits option.splits dest: parse_number_shrinks take_js_length)

lemma parse_elements_shrinks:
  assumes pv: "\<And>t v r. pv t = Some (v, r) \<Longrightarrow> length r < length t"
  shows "parse_elements pv n acc s = Some (v, rest) \<Longrightarrow> length rest < length s"
proof (induction n arbitrary: acc s)
  case 0
  then show ?case by simp
next
  case (Suc n)
  obtain c cs where s: "skip_ws s = c # cs"
    using Suc.prems by (cases "skip_ws s") simp_all
  have cs: "length cs < length s" using s by (rule skip_ws_Cons_length)
  show ?case
  proof (cases "c = 0x5D")
    case True
    then show ?thesis using Suc.prems s cs by simp
  next
    case False
    then obtain w r where w: "c = 0x2C" "pv cs = Some (w, r)"
      "parse_elements pv n (acc @ [w]) r = Some (v, rest)"
      using Suc.prems s by (auto split: if_splits option.splits)
    have "length r < length cs" using w(2) by (rule pv)
    moreover have "length rest < length r" using w(3) by (rule Suc.IH)
    ultimately show ?thesis using cs by simp
  qed
qed

lemma parse_member_shrinks:
  assumes pv: "\<And>t v r. pv t = Some (v, r) \<Longrightarrow> length r < length t"
  shows "parse_member pv s = Some (kv, rest) \<Longrightarrow> length rest < length s"
proof -
  assume a: "parse_member pv s = Some (kv, rest)"
  then obtain c cs where s: "skip_ws s = c # cs"
    by (cases "skip_ws s") (simp_all add: parse_member_def)
  from a s obtain k r1 where k: "parse_chars cs = Some (k, r1)"
    by (auto simp: parse_member_def split: if_splits option.splits)
  from a s k obtain d ds where d: "skip_ws r1 = d # ds"
    by (cases "skip_ws r1") (simp_all add: parse_member_def split: if_splits)
  from a s k d obtain w where w: "pv ds = Some (w, rest)"
    by (auto simp: parse_member_def split: if_splits option.splits)
  have "length cs < length s" using s by (rule skip_ws_Cons_length)
  moreover have "length r1 < length cs" using k by (rule parse_chars_shrinks)
  moreover have "length ds < length r1" using d by (rule skip_ws_Cons_length)
  moreover have "length rest < length ds" using w by (rule pv)
  ultimately show ?thesis by simp
qed

lemma parse_members_shrinks:
  assumes pv: "\<And>t v r. pv t = Some (v, r) \<Longrightarrow> length r < length t"
  shows "parse_members pv n acc s = Some (v, rest) \<Longrightarrow> length rest < length s"
proof (induction n arbitrary: acc s)
  case 0
  then show ?case by simp
next
  case (Suc n)
  obtain c cs where s: "skip_ws s = c # cs"
    using Suc.prems by (cases "skip_ws s") simp_all
  have cs: "length cs < length s" using s by (rule skip_ws_Cons_length)
  show ?case
  proof (cases "c = 0x7D")
    case True
    then show ?thesis using Suc.prems s cs by simp
  next
    case False
    then obtain k w r where w: "c = 0x2C" "parse_member pv cs = Some ((k, w), r)"
      "parse_members pv n (CreateDataProperty acc k w) r = Some (v, rest)"
      using Suc.prems s by (auto split: if_splits option.splits)
    have "length r < length cs" using pv w(2) by (rule parse_member_shrinks)
    moreover have "length rest < length r" using w(3) by (rule Suc.IH)
    ultimately show ?thesis using cs by simp
  qed
qed

lemma parse_compound_shrinks:
  assumes pv: "\<And>t v r. pv t = Some (v, r) \<Longrightarrow> length r < length t"
    and a: "parse_compound pv n s = Some (v, rest)"
  shows "length rest < length s"
proof -
  obtain c cs where s: "skip_ws s = c # cs"
    using a by (cases "skip_ws s") (simp_all add: parse_compound_def)
  have cs: "length cs < length s" using s by (rule skip_ws_Cons_length)
  have le: "length (c # cs) \<le> length s" using skip_ws_length[of s] s by simp
  consider (str) "c = 0x22" | (arr) "c \<noteq> 0x22" "c = 0x5B"
    | (ob) "c \<noteq> 0x22" "c \<noteq> 0x5B" "c = 0x7B"
    | (sc) "c \<noteq> 0x22" "c \<noteq> 0x5B" "c \<noteq> 0x7B"
    by blast
  then show ?thesis
  proof cases
    case str
    then obtain t where "parse_chars cs = Some (t, rest)"
      using a s by (auto simp: parse_compound_def split: option.splits)
    then have "length rest < length cs" by (rule parse_chars_shrinks)
    then show ?thesis using cs by simp
  next
    case arr
    obtain d ds where d: "skip_ws cs = d # ds"
      using a s arr by (cases "skip_ws cs") (simp_all add: parse_compound_def)
    show ?thesis
    proof (cases "d = 0x5D")
      case True
      then have "rest = ds" using a s arr d by (simp add: parse_compound_def)
      then show ?thesis using skip_ws_Cons_length[OF d] cs by simp
    next
      case False
      then obtain w r where w: "pv cs = Some (w, r)" "parse_elements pv n [w] r = Some (v, rest)"
        using a s arr d by (auto simp: parse_compound_def split: option.splits)
      have "length r < length cs" using w(1) by (rule pv)
      moreover have "length rest < length r" using pv w(2) by (rule parse_elements_shrinks)
      ultimately show ?thesis using cs by simp
    qed
  next
    case ob
    obtain d ds where d: "skip_ws cs = d # ds"
      using a s ob by (cases "skip_ws cs") (simp_all add: parse_compound_def)
    show ?thesis
    proof (cases "d = 0x7D")
      case True
      then have "rest = ds" using a s ob d by (simp add: parse_compound_def)
      then show ?thesis using skip_ws_Cons_length[OF d] cs by simp
    next
      case False
      then obtain k w r where w: "parse_member pv cs = Some ((k, w), r)"
        "parse_members pv n [(k, w)] r = Some (v, rest)"
        using a s ob d by (auto simp: parse_compound_def split: option.splits)
      have "length r < length cs" using pv w(1) by (rule parse_member_shrinks)
      moreover have "length rest < length r" using pv w(2) by (rule parse_members_shrinks)
      ultimately show ?thesis using cs by simp
    qed
  next
    case sc
    then have "parse_scalar (c # cs) = Some (v, rest)"
      using a s by (simp add: parse_compound_def)
    then have "length rest < length (c # cs)" by (rule parse_scalar_shrinks)
    then show ?thesis using le by simp
  qed
qed

lemma parse_value_shrinks: "parse_value n s = Some (v, rest) \<Longrightarrow> length rest < length s"
proof (induction n arbitrary: s v rest)
  case 0
  then show ?case by simp
next
  case (Suc n)
  have "parse_compound (parse_value n) n s = Some (v, rest)" using Suc.prems by simp
  with Suc.IH show ?case by (rule parse_compound_shrinks)
qed

lemma parse_elements_nil: "parse_elements pv n acc [] = None"
  by (cases n) (simp_all add: skip_ws_def)

lemma parse_members_nil: "parse_members pv n acc [] = None"
  by (cases n) (simp_all add: skip_ws_def)

lemma parse_value_nil: "parse_value n [] = None"
  by (cases n) (simp_all add: parse_compound_def skip_ws_def)

lemma parse_elements_fuel:
  assumes shr: "\<And>t v r. pv t = Some (v, r) \<Longrightarrow> length r < length t"
  shows "(\<And>t. length t < length s \<Longrightarrow> pv t = pv' t) \<Longrightarrow> length s \<le> n \<Longrightarrow> length s \<le> n' \<Longrightarrow>
         parse_elements pv n acc s = parse_elements pv' n' acc s"
proof (induction n arbitrary: n' acc s)
  case 0
  then show ?case by (simp add: parse_elements_nil)
next
  case (Suc n)
  show ?case
  proof (cases n')
    case 0
    then show ?thesis using Suc.prems by (simp add: parse_elements_nil)
  next
    case n': (Suc m)
    show ?thesis
    proof (cases "skip_ws s")
      case Nil
      then show ?thesis by (simp add: n')
    next
      case (Cons c cs)
      have cs: "length cs < length s" using Cons by (rule skip_ws_Cons_length)
      have eq: "pv' cs = pv cs" using Suc.prems(1)[OF cs] by simp
      show ?thesis
      proof (cases "pv cs")
        case None
        then show ?thesis using Cons eq by (simp add: n')
      next
        case (Some p)
        obtain w r where p: "p = (w, r)" by (cases p)
        have r: "length r < length cs" using Some p shr by simp
        have "parse_elements pv n (acc @ [w]) r = parse_elements pv' m (acc @ [w]) r"
        proof (rule Suc.IH)
          fix t :: jstring
    assume "length t < length r"
          then show "pv t = pv' t" using Suc.prems(1)[of t] r cs by simp
        next
          show "length r \<le> n" using r cs Suc.prems(2) by simp
          show "length r \<le> m" using r cs Suc.prems(3) n' by simp
        qed
        then show ?thesis using Cons eq Some p by (simp add: n')
      qed
    qed
  qed
qed

lemma parse_member_fuel:
  assumes "\<And>t. length t < length s \<Longrightarrow> pv t = pv' t"
  shows "parse_member pv s = parse_member pv' s"
proof (cases "skip_ws s")
  case Nil
  then show ?thesis by (simp add: parse_member_def)
next
  case (Cons c cs)
  have cs: "length cs < length s" using Cons by (rule skip_ws_Cons_length)
  show ?thesis
  proof (cases "parse_chars cs")
    case None
    then show ?thesis using Cons by (simp add: parse_member_def)
  next
    case (Some p)
    obtain k r1 where p: "p = (k, r1)" by (cases p)
    have r1: "length r1 < length cs" using Some p by (simp add: parse_chars_shrinks)
    show ?thesis
    proof (cases "skip_ws r1")
      case Nil
      then show ?thesis using Cons Some p by (simp add: parse_member_def)
    next
      case d: (Cons d ds)
      have "length ds < length r1" using d by (rule skip_ws_Cons_length)
      then have "pv ds = pv' ds" using assms[of ds] r1 cs by simp
      then show ?thesis using Cons Some p d by (simp add: parse_member_def)
    qed
  qed
qed

lemma parse_members_fuel:
  assumes shr: "\<And>t v r. pv t = Some (v, r) \<Longrightarrow> length r < length t"
  shows "(\<And>t. length t < length s \<Longrightarrow> pv t = pv' t) \<Longrightarrow> length s \<le> n \<Longrightarrow> length s \<le> n' \<Longrightarrow>
         parse_members pv n acc s = parse_members pv' n' acc s"
proof (induction n arbitrary: n' acc s)
  case 0
  then show ?case by (simp add: parse_members_nil)
next
  case (Suc n)
  show ?case
  proof (cases n')
    case 0
    then show ?thesis using Suc.prems by (simp add: parse_members_nil)
  next
    case n': (Suc m)
    show ?thesis
    proof (cases "skip_ws s")
      case Nil
      then show ?thesis by (simp add: n')
    next
      case (Cons c cs)
      have cs: "length cs < length s" using Cons by (rule skip_ws_Cons_length)
      have eq: "parse_member pv' cs = parse_member pv cs"
        by (rule sym, rule parse_member_fuel) (use Suc.prems(1) cs in simp)
      show ?thesis
      proof (cases "parse_member pv cs")
        case None
        then show ?thesis using Cons eq by (simp add: n')
      next
        case (Some p)
        obtain k w r where p: "p = ((k, w), r)" by (cases p) auto
        have r: "length r < length cs"
          using shr Some[unfolded p] by (rule parse_member_shrinks)
        have "parse_members pv n (CreateDataProperty acc k w) r
                = parse_members pv' m (CreateDataProperty acc k w) r"
        proof (rule Suc.IH)
          fix t :: jstring
    assume "length t < length r"
          then show "pv t = pv' t" using Suc.prems(1)[of t] r cs by simp
        next
          show "length r \<le> n" using r cs Suc.prems(2) by simp
          show "length r \<le> m" using r cs Suc.prems(3) n' by simp
        qed
        then show ?thesis using Cons eq Some p by (simp add: n')
      qed
    qed
  qed
qed

lemma parse_compound_fuel:
  assumes shr: "\<And>t v r. pv t = Some (v, r) \<Longrightarrow> length r < length t"
    and agree: "\<And>t. length t < length s \<Longrightarrow> pv t = pv' t"
    and n: "length s \<le> Suc n" and n': "length s \<le> Suc n'"
  shows "parse_compound pv n s = parse_compound pv' n' s"
proof (cases "skip_ws s")
  case Nil
  then show ?thesis by (simp add: parse_compound_def)
next
  case (Cons c cs)
  have cs: "length cs < length s" using Cons by (rule skip_ws_Cons_length)
  have pvcs: "pv' cs = pv cs" using agree[OF cs] by simp
  have arr: "parse_elements pv n [w] r = parse_elements pv' n' [w] r"
    if "pv cs = Some (w, r)" for w r
  proof (rule parse_elements_fuel[OF shr])
    have r: "length r < length cs" using that by (rule shr)
    fix t :: jstring
    assume "length t < length r"
    then show "pv t = pv' t" using agree[of t] r cs by simp
  next
    have r: "length r < length cs" using that by (rule shr)
    show "length r \<le> n" using r cs n by simp
    show "length r \<le> n'" using r cs n' by simp
  qed
  have mem: "parse_member pv' cs = parse_member pv cs"
    by (rule sym, rule parse_member_fuel) (use agree cs in simp)
  have ob: "parse_members pv n [(k, w)] r = parse_members pv' n' [(k, w)] r"
    if "parse_member pv cs = Some ((k, w), r)" for k w r
  proof (rule parse_members_fuel[OF shr])
    have r: "length r < length cs" using shr that by (rule parse_member_shrinks)
    fix t :: jstring
    assume "length t < length r"
    then show "pv t = pv' t" using agree[of t] r cs by simp
  next
    have r: "length r < length cs" using shr that by (rule parse_member_shrinks)
    show "length r \<le> n" using r cs n by simp
    show "length r \<le> n'" using r cs n' by simp
  qed
  show ?thesis
    unfolding parse_compound_def Cons
    by (simp add: pvcs mem arr ob split: list.splits option.splits)
qed

lemma parse_value_fuel:
  "length s \<le> n \<Longrightarrow> length s \<le> m \<Longrightarrow> parse_value n s = parse_value m s"
proof (induction n arbitrary: m s)
  case 0
  then show ?case by (simp add: parse_value_nil)
next
  case (Suc n)
  show ?case
  proof (cases m)
    case 0
    then show ?thesis using Suc.prems by (simp add: parse_value_nil)
  next
    case m: (Suc m')
    have "parse_compound (parse_value n) n s = parse_compound (parse_value m') m' s"
    proof (rule parse_compound_fuel)
      fix t :: jstring and v r
      assume "parse_value n t = Some (v, r)"
      then show "length r < length t" by (rule parse_value_shrinks)
    next
      fix t :: jstring
      assume "length t < length s"
      then show "parse_value n t = parse_value m' t"
        using Suc.prems m by (intro Suc.IH) simp_all
    next
      show "length s \<le> Suc n" using Suc.prems by simp
      show "length s \<le> Suc m'" using Suc.prems m by simp
    qed
    then show ?thesis by (simp add: m)
  qed
qed

lemma JSON_parse_any_bound:
  assumes "length s \<le> n"
  shows "JSON_parse s =
           (case parse_value n s of
              None \<Rightarrow> None
            | Some (v, rest) \<Rightarrow> if skip_ws rest = [] then Some v else None)"
  unfolding JSON_parse_def parse_value_fuel[OF assms order_refl] ..

section \<open>Properties of the handlers\<close>

lemma key_distinct:
  "distinct [js ''username'', js ''name'', js ''phone'', js ''email'', js ''address'']"
  by (simp add: js_def)

lemma key_inj: "key f = key g \<longleftrightarrow> f = g"
  by (cases f; cases g) (simp_all add: js_def)

lemma added_append [simp]: "effects st' = effects st @ new \<Longrightarrow> added st st' = new"
  by (simp add: added_def)

lemma spread_object: "spread target (JObj kvs) = target ++ map_of (rev kvs)"
proof -
  have "fold (\<lambda>(k, x) ob. ob(k \<mapsto> x)) kvs target = target ++ map_of (rev kvs)" for target
  proof (induction kvs arbitrary: target)
    case Nil
    show ?case by simp
  next
    case (Cons kv kvs)
    obtain k x where kv: "kv = (k, x)" by (cases kv)
    have e: "(target(k \<mapsto> x)) ++ map_of (rev kvs) = target ++ ([k \<mapsto> x] ++ map_of (rev kvs))"
      by (rule ext) (simp add: map_add_def split: option.splits)
    have "fold (\<lambda>(k, x) ob. ob(k \<mapsto> x)) (kv # kvs) target
            = fold (\<lambda>(k, x) ob. ob(k \<mapsto> x)) kvs (target(k \<mapsto> x))"
      by (simp only: kv fold_simps prod.case)
    also have "\<dots> = (target(k \<mapsto> x)) ++ map_of (rev kvs)"
      by (rule Cons.IH)
    also have "\<dots> = target ++ ([k \<mapsto> x] ++ map_of (rev kvs))"
      by (rule e)
    also have "\<dots> = target ++ map_of (rev (kv # kvs))"
      by (simp add: kv)
    finally show ?case .
  qed
  then show ?thesis by (simp add: spread_def)
qed

lemma map_of_rev_distinct: "distinct (map fst kvs) \<Longrightarrow> map_of (rev kvs) = map_of kvs"
  by (rule map_of_inject_set[THEN iffD2]) (simp_all add: rev_map[symmetric])

lemma isGuestMode_iff:
  "isGuestMode sess \<longleftrightarrow> \<not> isAuthenticated sess \<or> userId sess = None \<or> userId sess = Some []"
  by (auto simp: isGuestMode_def truthy_id_def split: option.splits)

lemma handleGuestSave_effects:
  "\<exists>t. effects (handleGuestSave N st) = effects st @ [Toast t]"
  by (simp add: handleGuestSave_def Let_def split: option.splits)

lemma mutationFn_signed_in:
  assumes "truthy_id (userId sess)"
  obtains u where "userId sess = Some u" "u \<noteq> []"
    "mutationFn sess d = Inr (js ''PUT'', js ''/api/users/'' @ u, d)"
  using assms by (auto simp: truthy_id_def mutationFn_def split: option.splits)


lemma parse_partial_blob:
  "JSON_parse ([0x7B, 0x22] @ js ''name'' @ [0x22, 0x3A, 0x22] @ js ''Sara'' @ [0x22, 0x2C, 0x22] @
               js ''theme'' @ [0x22, 0x3A, 0x22] @ js ''dark'' @ [0x22, 0x7D])
   = Some (JObj [(js ''name'', JStr (js ''Sara'')), (js ''theme'', JStr (js ''dark''))])"
  by code_simp

lemma guest_is_guest: "isGuestMode guest"
  by (simp add: isGuestMode_def guest_def)

lemma getItem_storage_holding:
  "getItem (localStorage (mount (storage_holding blob))) (js ''guest_profile'') = Some blob"
  by (simp add: getItem_def mount_def storage_holding_def)

lemma profile_text_nonempty: "profile_text u n p e a \<noteq> []"
  by (simp add: profile_text_def)

lemma parse_profile_text:
  "JSON_parse (profile_text u n p e a) = Some (JObj (profile_record u n p e a))"
  unfolding profile_text_def profile_record_def
  by (rule parse_five) (simp_all add: js_def is_digit_def)

lemma profile_data_strings:
  assumes "profile st (js ''username'') = Some (JStr u)"
    and "profile st (js ''name'') = Some (JStr n)"
    and "profile st (js ''phone'') = Some (JStr p)"
    and "profile st (js ''email'') = Some (JStr e)"
    and "profile st (js ''address'') = Some (JStr a)"
  shows "profile_data (profile st) = profile_record u n p e a"
  using assms by (simp add: profile_data_def profile_record_def get_def)

lemma stringify_profile_record:
  "JSON_stringify N (JObj (profile_record u n p e a)) = Some (profile_text u n p e a)"
  unfolding profile_text_def profile_record_def by (rule stringify_five)

lemma handleGuestSave_stores:
  assumes "profile_data (profile st) = profile_record u n p e a"
    and "effects (handleGuestSave N st) = effects st @ [Toast ToastSavedLocally]"
  shows "getItem (localStorage (handleGuestSave N st)) (js ''guest_profile'')
           = Some (profile_text u n p e a)"
proof (cases "setItem (localStorage st) (js ''guest_profile'') (profile_text u n p e a)")
  case None
  then have "effects (handleGuestSave N st) = effects st @ [Toast ToastLocalSaveError]"
    by (simp add: handleGuestSave_def assms(1) stringify_profile_record)
  with assms(2) show ?thesis by simp
next
  case (Some ls)
  then have "items ls (js ''guest_profile'') = Some (profile_text u n p e a)"
    by (auto simp: setItem_def split: if_splits)
  then show ?thesis
    using Some by (simp add: handleGuestSave_def assms(1) stringify_profile_record getItem_def)
qed

lemma guest_load_profile_text:
  assumes "isGuestMode sess"
    and "getItem (localStorage st) (js ''guest_profile'') = Some (profile_text u n p e a)"
  shows "profile (guest_load_effect sess st) = profile st ++ map_of (profile_record u n p e a)"
proof -
  have d: "distinct (map fst (profile_record u n p e a))"
    using key_distinct by (simp add: profile_record_def)
  show ?thesis
    using assms
    by (simp add: guest_load_effect_def profile_text_nonempty parse_profile_text spread_object
          map_of_rev_distinct[OF d])
qed

lemma map_of_profile_record:
  "(m ++ map_of (profile_record u n p e a)) (js ''username'') = Some (JStr u)"
  "(m ++ map_of (profile_record u n p e a)) (js ''name'') = Some (JStr n)"
  "(m ++ map_of (profile_record u n p e a)) (js ''phone'') = Some (JStr p)"
  "(m ++ map_of (profile_record u n p e a)) (js ''email'') = Some (JStr e)"
  "(m ++ map_of (profile_record u n p e a)) (js ''address'') = Some (JStr a)"
  by (simp_all add: profile_record_def js_def)

lemma or_empty_cases:
  "or_empty N (JStr s) = JStr s"
  "or_empty N Undefined = JStr []"
  "or_empty N JNull = JStr []"
  by (auto simp: or_empty_def)

lemma or_empty_defined: "or_empty N v \<noteq> Undefined \<and> or_empty N v \<noteq> JNull"
  by (cases v) (auto simp: or_empty_def)

lemma or_empty_truthy: "truthy N v \<Longrightarrow> or_empty N v = v"
  by (simp add: or_empty_def)

lemma user_effect_field:
  "profile (user_effect N (JObj kvs) st) (key f) = Some (or_empty N (get (map_of kvs) (key f)))"
  by (cases f) (simp_all add: user_effect_def property_def js_def)

lemma user_effect_frame:
  "isEditing (user_effect N user st) = isEditing st \<and>
   isPending (user_effect N user st) = isPending st \<and>
   localStorage (user_effect N user st) = localStorage st \<and>
   effects (user_effect N user st) = effects st"
  by (simp add: user_effect_def)

text \<open>Without data (\<open>undefined\<close>, as for a guest, whose query is disabled) nothing changes.\<close>

lemma user_effect_no_data: "user_effect N Undefined st = st"
  by (simp add: user_effect_def)

text \<open>
  The guard in the mutation function is live code: called without a user identifier, the
  mutation is rejected with \<open>MustLogin\<close> and the error toast is shown.
\<close>

lemma mutate_without_user_rejects:
  "\<not> truthy_id (userId sess) \<Longrightarrow>
     added st (mutate sess d st) = [MutationRejected MustLogin, Toast ToastSaveError]"
  by (auto simp: mutate_def mutationFn_def truthy_id_def onError_def split: option.splits)

text \<open>An empty item is taken for no item: it is not parsed and nothing is logged.\<close>

lemma guest_load_empty_item:
  "getItem (localStorage st) (js ''guest_profile'') = Some [] \<Longrightarrow> guest_load_effect sess st = st"
  by (simp add: guest_load_effect_def)

lemma guest_load_no_item:
  "getItem (localStorage st) (js ''guest_profile'') = None \<Longrightarrow> guest_load_effect sess st = st"
  by (simp add: guest_load_effect_def)

lemma guest_load_signed_in: "\<not> isGuestMode sess \<Longrightarrow> guest_load_effect sess st = st"
  by (simp add: guest_load_effect_def)

text \<open>A successful remote save ends editing.\<close>

lemma mutation_success:
  "isEditing (mutation_settled sess True st) = False \<and>
   isPending (mutation_settled sess True st) = False \<and>
   profile (mutation_settled sess True st) = profile st \<and>
   added st (mutation_settled sess True st) = [InvalidateQueries (userId sess), Toast ToastSaved]"
  by (simp add: mutation_settled_def onSuccess_def)

text \<open>
  The effect on \<^verbatim>\<open>[user]\<close>, when it runs with a record: a returned string is kept, a missing
  key and \<open>null\<close> become the empty string, and no attribute is left \<open>undefined\<close> or
  \<open>null\<close>.
\<close>

lemma user_effect_defaults:
  "(\<forall>f s. map_of kvs (key f) = Some (JStr s) \<longrightarrow>
       profile (user_effect N (JObj kvs) st) (key f) = Some (JStr s)) \<and>
   (\<forall>f. map_of kvs (key f) = None \<or> map_of kvs (key f) = Some JNull \<longrightarrow>
       profile (user_effect N (JObj kvs) st) (key f) = Some (JStr [])) \<and>
   (\<forall>f. get (profile (user_effect N (JObj kvs) st)) (key f) \<noteq> Undefined \<and>
        get (profile (user_effect N (JObj kvs) st)) (key f) \<noteq> JNull)"
proof (intro conjI allI impI)
  fix f s
  assume "map_of kvs (key f) = Some (JStr s)"
  then show "profile (user_effect N (JObj kvs) st) (key f) = Some (JStr s)"
    by (simp add: user_effect_field get_def or_empty_cases)
next
  fix f
  assume "map_of kvs (key f) = None \<or> map_of kvs (key f) = Some JNull"
  then show "profile (user_effect N (JObj kvs) st) (key f) = Some (JStr [])"
    by (auto simp: user_effect_field get_def or_empty_cases)
next
  fix f
  show "get (profile (user_effect N (JObj kvs) st)) (key f) \<noteq> Undefined"
    using or_empty_defined[of N "get (map_of kvs) (key f)"]
    by (simp add: user_effect_field get_def[of "profile _"])
  show "get (profile (user_effect N (JObj kvs) st)) (key f) \<noteq> JNull"
    using or_empty_defined[of N "get (map_of kvs) (key f)"]
    by (simp add: user_effect_field get_def[of "profile _"])
qed

lemma user_effect_omar:
  "profile (user_effect N omar_record st)
     = [js ''username'' \<mapsto> JStr [], js ''name'' \<mapsto> JStr (js ''Omar''),
        js ''phone'' \<mapsto> JStr (js ''0500000000''), js ''email'' \<mapsto> JStr [],
        js ''address'' \<mapsto> JStr []]"
  by (simp add: user_effect_def omar_record_def property_def get_def or_empty_def js_def)

text \<open>The hooks of a render: nine while loading, ten otherwise.\<close>

lemma hooks_called_loading:
  "authLoading \<or> isLoading \<Longrightarrow>
     hooks_called authLoading isLoading =
       [UseLocation, UseToast, UseQueryClient, UseAuth, UseStateProfile, UseStateIsEditing,
        UseQuery, UseMutation, UseEffectUser]"
  by (simp add: hooks_called_def)

lemma hooks_called_loaded:
  "hooks_called False False =
     [UseLocation, UseToast, UseQueryClient, UseAuth, UseStateProfile, UseStateIsEditing,
      UseQuery, UseMutation, UseEffectUser, UseEffectGuest]"
  by (simp add: hooks_called_def)

lemma hooks_called_differ:
  "authLoading \<or> isLoading \<Longrightarrow> hooks_called False False \<noteq> hooks_called authLoading isLoading"
  by (simp add: hooks_called_loading hooks_called_loaded)

text \<open>
  A first render that is loading commits with nine hooks; the guest effect is not
  registered, and the effect on \<^verbatim>\<open>[user]\<close> has run with what the query had then.
\<close>

lemma first_render_loading:
  assumes "authLoading \<or> isLoading"
  shows "first_render N sess authLoading isLoading user ls =
           \<lparr>page = user_effect N user (mount ls),
            hooks = hooks_called authLoading isLoading,
            user_dep = user, guest_dep = None\<rparr>"
  using assms by (simp add: first_render_def hooks_called_loading)

text \<open>
  The first render that gets past the loading return after one that did not: it calls a
  tenth hook and React throws, whatever the session and whatever the query returned.
\<close>

lemma rerender_after_loading_throws:
  assumes "authLoading \<or> isLoading"
  shows "rerender N sess False False user (first_render N sess authLoading isLoading user0 ls) = None"
  using hooks_called_differ[OF assms]
  by (simp add: rerender_def first_render_loading[OF assms])

text \<open>While the page is still loading, a render is committed and the record is not there.\<close>

lemma rerender_still_loading:
  "rerender N sess False True Undefined (first_render N sess False True Undefined ls)
     = Some (first_render N sess False True Undefined ls)"
  by (simp add: rerender_def first_render_loading)

text \<open>
  When the record is in the query cache at the first render, the page is not loading, all
  ten hooks are called from the start, and the effect on \<^verbatim>\<open>[user]\<close> runs with the record.
\<close>

lemma first_render_cached:
  assumes "\<not> isGuestMode sess"
  shows "page (first_render N sess False False user ls) = user_effect N user (mount ls) \<and>
         hooks (first_render N sess False False user ls) = hooks_called False False"
  using assms
  by (simp add: first_render_def hooks_called_loaded guest_load_signed_in Let_def)

text \<open>For a visitor who is not loading, the first render is the guest load on a fresh page.\<close>

lemma first_render_guest:
  "page (first_render N sess False False Undefined ls) = guest_load_effect sess (mount ls)"
  by (simp add: first_render_def hooks_called_loaded user_effect_no_data Let_def)

section \<open>Properties of the page\<close>

subsection \<open>Editing\<close>

text \<open>
  Claim C1, as the code has it. After \<open>onChange f v\<close> and then the cancel button, the page
  is back in viewing mode, nothing has been stored and no collaborator has been called;
  the profile in memory is the one the user typed: attribute \<open>f\<close> holds \<open>v\<close>, and nothing
  puts the earlier value back.
\<close>

theorem cancel_keeps_typed_value:
  "profile (cancelEdit (onChange f v st)) = (profile st)(key f \<mapsto> JStr v) \<and>
   isEditing (cancelEdit (onChange f v st)) = False \<and>
   isPending (cancelEdit (onChange f v st)) = isPending st \<and>
   localStorage (cancelEdit (onChange f v st)) = localStorage st \<and>
   effects (cancelEdit (onChange f v st)) = effects st"
  by (simp add: cancelEdit_def onChange_def)

text \<open>
  Claim C1 as it is written says that cancel restores the attributes to their values before
  the update. On a freshly mounted page the name is the empty string; after edit, typing
  \<^verbatim>\<open>Sara\<close> and cancel it is \<^verbatim>\<open>Sara\<close>.
\<close>

theorem cancel_restores_counterexample:
  "get (profile (startEdit (mount empty_storage))) (js ''name'') = JStr [] \<and>
   get (profile (cancelEdit (onChange Name (js ''Sara'') (startEdit (mount empty_storage)))))
     (js ''name'') = JStr (js ''Sara'') \<and>
   JStr (js ''Sara'') \<noteq> JStr []"
  by (simp add: cancelEdit_def onChange_def startEdit_def mount_def initial_profile_def get_def js_def)

text \<open>
  Claim C5. \<open>onChange f v\<close> sets attribute \<open>f\<close> to \<open>v\<close>, whatever string \<open>v\<close> is; the other
  four attributes, and every other property of the profile, keep their values; the editing
  mode, the pending flag, the local storage and the effects are untouched. The handler is a
  total function of the state: there is no failing case.
\<close>

theorem onChange_frame:
  "profile (onChange f v st) (key f) = Some (JStr v) \<and>
   (\<forall>g. g \<noteq> f \<longrightarrow> profile (onChange f v st) (key g) = profile st (key g)) \<and>
   (\<forall>k. k \<noteq> key f \<longrightarrow> profile (onChange f v st) k = profile st k) \<and>
   isEditing (onChange f v st) = isEditing st \<and>
   isPending (onChange f v st) = isPending st \<and>
   localStorage (onChange f v st) = localStorage st \<and>
   effects (onChange f v st) = effects st"
  by (simp add: onChange_def key_inj)

text \<open>The frame of \<open>onChange\<close> at the phone attribute of a fresh page.\<close>

theorem onChange_frame_witness:
  "Name \<noteq> Phone \<and> js ''theme'' \<noteq> key Phone \<and>
   profile (onChange Phone (js ''0500000000'') (mount empty_storage)) (key Phone)
     = Some (JStr (js ''0500000000'')) \<and>
   profile (onChange Phone (js ''0500000000'') (mount empty_storage)) (key Name) = Some (JStr []) \<and>
   profile (onChange Phone (js ''0500000000'') (mount empty_storage)) (js ''theme'') = None"
proof -
  have a: "Name \<noteq> Phone" by simp
  have b: "js ''theme'' \<noteq> key Phone" by (simp add: js_def)
  have c: "profile (mount empty_storage) (key Name) = Some (JStr [])"
    "profile (mount empty_storage) (js ''theme'') = None"
    by (simp_all add: mount_def initial_profile_def js_def)
  have others: "\<forall>g. g \<noteq> Phone \<longrightarrow>
           profile (onChange Phone (js ''0500000000'') (mount empty_storage)) (key g)
             = profile (mount empty_storage) (key g)"
    and rest: "\<forall>k. k \<noteq> key Phone \<longrightarrow>
           profile (onChange Phone (js ''0500000000'') (mount empty_storage)) k
             = profile (mount empty_storage) k"
    and this_one: "profile (onChange Phone (js ''0500000000'') (mount empty_storage)) (key Phone)
             = Some (JStr (js ''0500000000''))"
    using onChange_frame[of Phone "js ''0500000000''" "mount empty_storage"] by blast+
  show ?thesis
    using a b c this_one others[rule_format, OF a] rest[rule_format, OF b]
    by (simp only: simp_thms)
qed

subsection \<open>Saving\<close>



text \<open>
  Claim C4. A signed-in user saves while editing and the request fails. Afterwards the page
  is still editing, the profile in memory is what it was when the user pressed save, nothing
  was written to local storage, the effects are the request, its rejection and the error
  toast, and the save button is available again; pressing it sends the request once more.
\<close>

theorem remote_failure_keeps_editing:
  assumes "isAuthenticated sess" and "truthy_id (userId sess)" and "isEditing st"
  shows "isEditing (mutation_settled sess False (handleSave N sess st)) \<and>
         profile (mutation_settled sess False (handleSave N sess st)) = profile st \<and>
         localStorage (mutation_settled sess False (handleSave N sess st)) = localStorage st \<and>
         (\<exists>request. added st (mutation_settled sess False (handleSave N sess st)) =
            [request, MutationRejected RequestFailed, Toast ToastSaveError] \<and> is_request request) \<and>
         save_available sess (mutation_settled sess False (handleSave N sess st)) \<and>
         (\<exists>request. added (mutation_settled sess False (handleSave N sess st))
              (handleSave N sess (mutation_settled sess False (handleSave N sess st))) = [request] \<and>
            is_request request)"
proof -
  have eq: "handleSave N sess s = mutate sess (profile_data (profile s)) s" for s
    using assms by (simp add: handleSave_def isGuestMode_def)
  obtain u where u: "userId sess = Some u"
    "\<And>d. mutationFn sess d = Inr (js ''PUT'', js ''/api/users/'' @ u, d)"
    using assms(2) by (auto simp: truthy_id_def mutationFn_def split: option.splits)
  show ?thesis
    unfolding eq using assms
    by (simp add: mutate_def u mutation_settled_def onError_def save_available_def added_def)
qed

text \<open>The user with identifier \<^verbatim>\<open>42\<close> types a name, saves, and the request fails.\<close>

theorem remote_failure_keeps_editing_witness:
  "isAuthenticated member \<and> truthy_id (userId member) \<and>
   isEditing (onChange Name (js ''Omar'') (startEdit (mount empty_storage))) \<and>
   isEditing (mutation_settled member False
      (handleSave plain_numbers member (onChange Name (js ''Omar'') (startEdit (mount empty_storage))))) \<and>
   get (profile (mutation_settled member False
      (handleSave plain_numbers member (onChange Name (js ''Omar'') (startEdit (mount empty_storage))))))
     (js ''name'') = JStr (js ''Omar'') \<and>
   save_available member (mutation_settled member False
      (handleSave plain_numbers member (onChange Name (js ''Omar'') (startEdit (mount empty_storage)))))"
proof -
  have a: "isAuthenticated member" by (simp add: member_def)
  have b: "truthy_id (userId member)" by (simp add: member_def truthy_id_def js_def)
  have c: "isEditing (onChange Name (js ''Omar'') (startEdit (mount empty_storage)))"
    by (simp add: onChange_def startEdit_def)
  show ?thesis
    using a b c remote_failure_keeps_editing[OF a b c, of plain_numbers]
    by (simp add: onChange_def get_def)
qed

text \<open>
  Claim C10. The guard \<^verbatim>\<open>if (!userId) throw\<close> of the mutation function is never taken by a
  save. Outside guest mode the user identifier is set, so the mutation function issues its
  request; in guest mode \<open>handleSave\<close> is \<open>handleGuestSave\<close>, whose only effect is a toast, so
  the mutation is not invoked. In neither case is a rejection with \<open>MustLogin\<close> among the
  effects of the save.
\<close>

theorem must_login_unreachable:
  "(\<not> isGuestMode sess \<longrightarrow>
      (\<exists>request. mutationFn sess (profile_data (profile st)) = Inr request)) \<and>
   (isGuestMode sess \<longrightarrow>
      handleSave N sess st = handleGuestSave N st \<and>
      (\<exists>t. added st (handleSave N sess st) = [Toast t])) \<and>
   MutationRejected MustLogin \<notin> set (added st (handleSave N sess st))"
proof -
  have remote: "\<exists>u. mutationFn sess (profile_data (profile st))
                    = Inr (js ''PUT'', js ''/api/users/'' @ u, profile_data (profile st))"
    if "\<not> isGuestMode sess"
    using that by (auto simp: isGuestMode_def elim: mutationFn_signed_in)
  have local: "handleSave N sess st = handleGuestSave N st" if "isGuestMode sess"
    using that by (simp add: handleSave_def)
  have toast: "\<exists>t. added st (handleGuestSave N st) = [Toast t]"
    using handleGuestSave_effects[of N st] by auto
  have never: "MutationRejected MustLogin \<notin> set (added st (handleSave N sess st))"
  proof (cases "isGuestMode sess")
    case True
    then show ?thesis using toast by (auto simp: local)
  next
    case False
    then obtain u where "mutationFn sess (profile_data (profile st))
                    = Inr (js ''PUT'', js ''/api/users/'' @ u, profile_data (profile st))"
      using remote by blast
    then show ?thesis using False by (simp add: handleSave_def mutate_def)
  qed
  show ?thesis using remote local toast never by auto
qed

text \<open>The signed-in user's save issues the request; the visitor's save is the guest save.\<close>

theorem must_login_unreachable_witness:
  "\<not> isGuestMode member \<and>
   mutationFn member (profile_data (profile (mount empty_storage)))
     = Inr (js ''PUT'', js ''/api/users/42'', profile_data initial_profile) \<and>
   isGuestMode guest \<and>
   handleSave plain_numbers guest (mount empty_storage) = handleGuestSave plain_numbers (mount empty_storage) \<and>
   MutationRejected MustLogin \<notin> set (added (mount empty_storage) (handleSave plain_numbers guest (mount empty_storage)))"
proof -
  have m: "\<not> isGuestMode member"
    by (simp add: isGuestMode_def member_def truthy_id_def js_def)
  have f: "mutationFn member (profile_data (profile (mount empty_storage)))
     = Inr (js ''PUT'', js ''/api/users/42'', profile_data initial_profile)"
    by (simp add: mutationFn_def member_def mount_def js_def)
  show ?thesis
    using m f guest_is_guest
      must_login_unreachable[of member "mount empty_storage" plain_numbers]
      must_login_unreachable[of guest "mount empty_storage" plain_numbers]
    by blast
qed

subsection \<open>Loading\<close>

text \<open>
  Claim C6 says that an authenticated load whose remote read returns a record with keys
  missing populates the profile from it. The code does not get that far. The signed-in user
  \<^verbatim>\<open>42\<close> opens the page with nothing cached: the first render is loading, calls nine
  hooks and returns the loading screen, and the profile holds the five empty strings. When
  the read has returned the record with name \<^verbatim>\<open>Omar\<close> and phone \<^verbatim>\<open>0500000000\<close>, the next
  render gets past the loading return and calls the tenth hook, which the hook order of
  the first render does not have: React throws, the render is not committed, and the effect
  on \<^verbatim>\<open>[user]\<close> never runs with the record.
\<close>

theorem cold_load_throws:
  "hooks (first_render plain_numbers member False True Undefined empty_storage)
     = hooks_called False True \<and>
   length (hooks_called False True) = 9 \<and>
   length (hooks_called False False) = 10 \<and>
   profile (page (first_render plain_numbers member False True Undefined empty_storage))
     = initial_profile \<and>
   rerender plain_numbers member False False omar_record
      (first_render plain_numbers member False True Undefined empty_storage) = None"
proof -
  have l: "False \<or> True" by simp
  have "rerender plain_numbers member False False omar_record
          (first_render plain_numbers member False True Undefined empty_storage) = None"
    using l by (rule rerender_after_loading_throws)
  then show ?thesis
    by (simp add: first_render_loading hooks_called_loading hooks_called_loaded
          user_effect_no_data mount_def)
qed



text \<open>
  Claim C9. In guest mode, when the stored item parses to an object, the profile after the
  load is the profile before it overlaid with the members of the object: a property the
  object does not have keeps the value it had in memory (it is not reset to the empty
  string), and every member of the object, one of the five attributes or not, is in the
  profile with the stored value.
\<close>

theorem guest_load_is_overlay:
  assumes "isGuestMode sess"
    and "getItem (localStorage st) (js ''guest_profile'') = Some blob"
    and "blob \<noteq> []"
    and "JSON_parse blob = Some (JObj kvs)"
  shows "profile (guest_load_effect sess st) = profile st ++ map_of kvs \<and>
         (\<forall>k. k \<notin> fst ` set kvs \<longrightarrow> profile (guest_load_effect sess st) k = profile st k) \<and>
         (\<forall>k v. (k, v) \<in> set kvs \<longrightarrow> profile (guest_load_effect sess st) k = Some v)"
proof -
  have d: "distinct (map fst kvs)" using assms(4) by (rule JSON_parse_distinct)
  have p: "profile (guest_load_effect sess st) = profile st ++ map_of kvs"
    using assms by (simp add: guest_load_effect_def spread_object map_of_rev_distinct[OF d])
  have a: "profile (guest_load_effect sess st) k = profile st k" if "k \<notin> fst ` set kvs" for k
    using that by (simp add: p map_add_def map_of_eq_None_iff[THEN iffD2])
  have b: "profile (guest_load_effect sess st) k = Some v" if "(k, v) \<in> set kvs" for k v
    using that d by (simp add: p map_add_def)
  show ?thesis using p a b by blast
qed

text \<open>
  A stored object with the two members name \<^verbatim>\<open>Sara\<close> and theme \<^verbatim>\<open>dark\<close>, loaded into a
  page whose phone was set in memory: the phone stays, the name is taken from the item, and
  \<^verbatim>\<open>theme\<close> is a sixth property of the profile.
\<close>

theorem guest_load_is_overlay_witness:
  "isGuestMode guest \<and>
   JSON_parse ([0x7B, 0x22] @ js ''name'' @ [0x22, 0x3A, 0x22] @ js ''Sara'' @ [0x22, 0x2C, 0x22] @
               js ''theme'' @ [0x22, 0x3A, 0x22] @ js ''dark'' @ [0x22, 0x7D])
     = Some (JObj [(js ''name'', JStr (js ''Sara'')), (js ''theme'', JStr (js ''dark''))]) \<and>
   profile (guest_load_effect guest
      (onChange Phone (js ''0500000000'')
         (mount (storage_holding
            ([0x7B, 0x22] @ js ''name'' @ [0x22, 0x3A, 0x22] @ js ''Sara'' @ [0x22, 0x2C, 0x22] @
             js ''theme'' @ [0x22, 0x3A, 0x22] @ js ''dark'' @ [0x22, 0x7D])))))
   = [js ''username'' \<mapsto> JStr [], js ''name'' \<mapsto> JStr (js ''Sara''),
      js ''phone'' \<mapsto> JStr (js ''0500000000''), js ''email'' \<mapsto> JStr [],
      js ''address'' \<mapsto> JStr [], js ''theme'' \<mapsto> JStr (js ''dark'')]"
proof -
  let ?blob = "[0x7B, 0x22] @ js ''name'' @ [0x22, 0x3A, 0x22] @ js ''Sara'' @ [0x22, 0x2C, 0x22] @
             js ''theme'' @ [0x22, 0x3A, 0x22] @ js ''dark'' @ [0x22, 0x7D]"
  let ?st = "onChange Phone (js ''0500000000'') (mount (storage_holding ?blob))"
  have g: "getItem (localStorage ?st) (js ''guest_profile'') = Some ?blob"
    by (simp add: onChange_def getItem_storage_holding)
  have ne: "?blob \<noteq> []" by simp
  have "profile (guest_load_effect guest ?st) =
          profile ?st ++ map_of [(js ''name'', JStr (js ''Sara'')), (js ''theme'', JStr (js ''dark''))]"
    using guest_load_is_overlay[OF guest_is_guest g ne parse_partial_blob] by blast
  then have "profile (guest_load_effect guest ?st)
   = [js ''username'' \<mapsto> JStr [], js ''name'' \<mapsto> JStr (js ''Sara''),
      js ''phone'' \<mapsto> JStr (js ''0500000000''), js ''email'' \<mapsto> JStr [],
      js ''address'' \<mapsto> JStr [], js ''theme'' \<mapsto> JStr (js ''dark'')]"
    by (simp add: onChange_def mount_def initial_profile_def js_def fun_eq_iff map_add_def)
  then show ?thesis using guest_is_guest parse_partial_blob by blast
qed

subsection \<open>The guest round trip\<close>

text \<open>
  Claim C2. Let the five attributes of the profile be any strings \<open>u\<close>, \<open>n\<close>, \<open>p\<close>, \<open>e\<close>, \<open>a\<close>,
  and let the guest save go through (it reports \<open>ToastSavedLocally\<close>, that is,
  \<^verbatim>\<open>setItem\<close> did not throw). Then a later guest load on the storage the save left,
  from whatever profile is in memory, yields \<open>u\<close>, \<open>n\<close>, \<open>p\<close>, \<open>e\<close>, \<open>a\<close> in the five
  attributes.
\<close>

theorem guest_save_load_roundtrip:
  assumes "isGuestMode sess"
    and "profile st (js ''username'') = Some (JStr u)"
    and "profile st (js ''name'') = Some (JStr n)"
    and "profile st (js ''phone'') = Some (JStr p)"
    and "profile st (js ''email'') = Some (JStr e)"
    and "profile st (js ''address'') = Some (JStr a)"
    and "effects (handleGuestSave N st) = effects st @ [Toast ToastSavedLocally]"
    and "localStorage later = localStorage (handleGuestSave N st)"
  shows "profile (guest_load_effect sess later) (js ''username'') = Some (JStr u) \<and>
         profile (guest_load_effect sess later) (js ''name'') = Some (JStr n) \<and>
         profile (guest_load_effect sess later) (js ''phone'') = Some (JStr p) \<and>
         profile (guest_load_effect sess later) (js ''email'') = Some (JStr e) \<and>
         profile (guest_load_effect sess later) (js ''address'') = Some (JStr a)"
proof -
  have d: "profile_data (profile st) = profile_record u n p e a"
    using assms(2-6) by (rule profile_data_strings)
  have "getItem (localStorage later) (js ''guest_profile'') = Some (profile_text u n p e a)"
    unfolding assms(8) using d assms(7) by (rule handleGuestSave_stores)
  then have "profile (guest_load_effect sess later)
               = profile later ++ map_of (profile_record u n p e a)"
    using assms(1) by (simp add: guest_load_profile_text)
  then show ?thesis by (simp only: map_of_profile_record simp_thms)
qed

text \<open>
  A name made of a double quote, a backslash, a line feed, an unpaired surrogate and a
  letter, and an e-mail address, saved by a visitor and loaded on the next mount.
\<close>

theorem guest_save_load_roundtrip_witness:
  "isGuestMode guest \<and>
   effects (handleGuestSave plain_numbers
      (onChange Name [0x22, 0x5C, 0x0A, 0xD800, 0x53] (onChange Email (js ''s@x.io'') (mount empty_storage))))
     = [Toast ToastSavedLocally] \<and>
   profile (guest_load_effect guest (mount (localStorage (handleGuestSave plain_numbers
      (onChange Name [0x22, 0x5C, 0x0A, 0xD800, 0x53] (onChange Email (js ''s@x.io'') (mount empty_storage)))))))
     (js ''name'') = Some (JStr [0x22, 0x5C, 0x0A, 0xD800, 0x53]) \<and>
   profile (guest_load_effect guest (mount (localStorage (handleGuestSave plain_numbers
      (onChange Name [0x22, 0x5C, 0x0A, 0xD800, 0x53] (onChange Email (js ''s@x.io'') (mount empty_storage)))))))
     (js ''email'') = Some (JStr (js ''s@x.io''))"
proof -
  let ?st = "onChange Name [0x22, 0x5C, 0x0A, 0xD800, 0x53]
               (onChange Email (js ''s@x.io'') (mount empty_storage))"
  have f: "profile ?st (js ''username'') = Some (JStr [])"
    "profile ?st (js ''name'') = Some (JStr [0x22, 0x5C, 0x0A, 0xD800, 0x53])"
    "profile ?st (js ''phone'') = Some (JStr [])"
    "profile ?st (js ''email'') = Some (JStr (js ''s@x.io''))"
    "profile ?st (js ''address'') = Some (JStr [])"
    by (simp_all add: onChange_def mount_def initial_profile_def js_def)
  have s: "effects (handleGuestSave plain_numbers ?st) = effects ?st @ [Toast ToastSavedLocally]"
    by (simp add: handleGuestSave_def Let_def setItem_def onChange_def mount_def empty_storage_def
          JSON_stringify_def)
  have l: "localStorage (mount (localStorage (handleGuestSave plain_numbers ?st)))
             = localStorage (handleGuestSave plain_numbers ?st)"
    by (simp add: mount_def)
  have e: "effects ?st = []" by (simp add: onChange_def mount_def)
  show ?thesis
    using guest_save_load_roundtrip[OF guest_is_guest f s l] guest_is_guest s e
    by simp
qed

text \<open>
  Claim C8. A visitor on a device with no stored profile that accepts the write: the load
  leaves the five attributes at the empty string; after the name is set to \<^verbatim>\<open>Sara\<close> and
  saved, the stored item parses to the record with name \<^verbatim>\<open>Sara\<close> and the other four
  attributes empty, and the load of the next mount yields exactly that profile.
\<close>

theorem sara_scenario:
  assumes "isGuestMode sess"
    and "getItem ls (js ''guest_profile'') = None"
    and "\<forall>text. accepts ls (js ''guest_profile'') text"
  shows "profile (guest_load_effect sess (mount ls)) = initial_profile \<and>
         (\<exists>text. getItem (localStorage (sara_saved N sess ls)) (js ''guest_profile'') = Some text \<and>
            JSON_parse text =
              Some (JObj [(js ''username'', JStr []), (js ''name'', JStr (js ''Sara'')),
                          (js ''phone'', JStr []), (js ''email'', JStr []), (js ''address'', JStr [])])) \<and>
         profile (guest_load_effect sess (mount (localStorage (sara_saved N sess ls))))
           = [js ''username'' \<mapsto> JStr [], js ''name'' \<mapsto> JStr (js ''Sara''),
              js ''phone'' \<mapsto> JStr [], js ''email'' \<mapsto> JStr [], js ''address'' \<mapsto> JStr []]"
proof -
  have load: "guest_load_effect sess (mount ls) = mount ls"
    using assms(1,2) by (simp add: guest_load_effect_def mount_def)
  let ?st = "onChange Name (js ''Sara'') (startEdit (mount ls))"
  have saved: "sara_saved N sess ls = handleGuestSave N ?st"
    using assms(1) by (simp add: sara_saved_def load handleSave_def)
  have d: "profile_data (profile ?st) = profile_record [] (js ''Sara'') [] [] []"
    by (simp add: profile_data_def profile_record_def get_def onChange_def startEdit_def mount_def
          initial_profile_def js_def)
  have ok: "effects (handleGuestSave N ?st) = effects ?st @ [Toast ToastSavedLocally]"
    using assms(3)
    by (simp add: handleGuestSave_def Let_def setItem_def onChange_def startEdit_def mount_def)
  have item: "getItem (localStorage (sara_saved N sess ls)) (js ''guest_profile'')
                = Some (profile_text [] (js ''Sara'') [] [] [])"
    unfolding saved using d ok by (rule handleGuestSave_stores)
  have item': "getItem (localStorage (mount (localStorage (sara_saved N sess ls)))) (js ''guest_profile'')
                = Some (profile_text [] (js ''Sara'') [] [] [])"
    using item by (simp add: mount_def)
  have reload: "profile (guest_load_effect sess (mount (localStorage (sara_saved N sess ls))))
           = initial_profile ++ map_of (profile_record [] (js ''Sara'') [] [] [])"
    using guest_load_profile_text[OF assms(1) item'] by (simp add: mount_def)
  have 1: "profile (guest_load_effect sess (mount ls)) = initial_profile"
    unfolding load by (simp add: mount_def)
  have 2: "\<exists>text. getItem (localStorage (sara_saved N sess ls)) (js ''guest_profile'') = Some text \<and>
            JSON_parse text =
              Some (JObj [(js ''username'', JStr []), (js ''name'', JStr (js ''Sara'')),
                          (js ''phone'', JStr []), (js ''email'', JStr []), (js ''address'', JStr [])])"
    using item parse_profile_text[of "[]" "js ''Sara''" "[]" "[]" "[]"]
    by (simp add: profile_record_def)
  have 3: "profile (guest_load_effect sess (mount (localStorage (sara_saved N sess ls))))
           = [js ''username'' \<mapsto> JStr [], js ''name'' \<mapsto> JStr (js ''Sara''),
              js ''phone'' \<mapsto> JStr [], js ''email'' \<mapsto> JStr [], js ''address'' \<mapsto> JStr []]"
    unfolding reload
    by (simp add: initial_profile_def profile_record_def js_def fun_eq_iff map_add_def)
  show ?thesis using 1 2 3 by blast
qed

text \<open>The scenario for the visitor on the empty device.\<close>

theorem sara_scenario_witness:
  "isGuestMode guest \<and> getItem empty_storage (js ''guest_profile'') = None \<and>
   (\<forall>text. accepts empty_storage (js ''guest_profile'') text) \<and>
   profile (guest_load_effect guest (mount empty_storage)) = initial_profile \<and>
   profile (guest_load_effect guest (mount (localStorage (sara_saved plain_numbers guest empty_storage))))
     = [js ''username'' \<mapsto> JStr [], js ''name'' \<mapsto> JStr (js ''Sara''),
        js ''phone'' \<mapsto> JStr [], js ''email'' \<mapsto> JStr [], js ''address'' \<mapsto> JStr []]"
proof -
  have a: "getItem empty_storage (js ''guest_profile'') = None"
    by (simp add: getItem_def empty_storage_def)
  have b: "\<forall>text. accepts empty_storage (js ''guest_profile'') text"
    by (simp add: empty_storage_def)
  show ?thesis
    using sara_scenario[OF guest_is_guest a b, of plain_numbers] guest_is_guest a b
    by blast
qed


end
